theory Spec2Isabelle
  imports Complex_Main "HOL-Library.Multiset"
begin

section \<open>Library management backend: lending ledger and scoring heuristics\<close>

text \<open>
  A shallow embedding of \<^verbatim>\<open>src/backend/server.py\<close>. The three MongoDB collections
  (\<^verbatim>\<open>db.users\<close>, \<^verbatim>\<open>db.books\<close>, \<^verbatim>\<open>db.borrows\<close>) are lists in insertion
  order; every endpoint is a function from the database (and the request, the authenticated
  user, and the clock readings and fresh identifiers the endpoint draws) to either an error
  or the new database with the response.

  Conventions of the embedding:
  \<^item> a \<^verbatim>\<open>datetime\<close> is an integer number of microseconds since \<^verbatim>\<open>datetime.min\<close>; the store
    keeps a timestamp as it is given;
  \<^item> a Python \<^verbatim>\<open>float\<close> is a real number: the arithmetic is exact. The scores that occur
    are \<open>0.5\<close>, multiples of \<open>0.2\<close> and their sums, and the fines are whole numbers, so the
    order of two scores and the comparisons with the thresholds are the same in both readings;
  \<^item> the \<^verbatim>\<open>status\<close> string of a borrow record only ever holds one of three values and is a
    datatype;
  \<^item> \<^verbatim>\<open>uuid.uuid4()\<close> and \<^verbatim>\<open>datetime.utcnow()\<close> are arguments of the endpoint that calls them;
  \<^item> of the store, \<^verbatim>\<open>find_one\<close>, \<^verbatim>\<open>update_one\<close> and \<^verbatim>\<open>delete_one\<close> act on the first
    document that matches, \<^verbatim>\<open>find\<close> yields the matching documents in the collection's
    order, and \<^verbatim>\<open>to_list(n)\<close> reads at most \<open>n\<close> of them.
\<close>

subsection \<open>Time\<close>

type_synonym datetime = int

definition DAY :: int where
  "DAY = 86400000000"

definition DATETIME_MAX :: datetime where
  \<comment> \<open>\<^verbatim>\<open>datetime.max\<close>: the last microsecond of the year 9999 (day 3652059 of the calendar).\<close>
  "DATETIME_MAX = 3652059 * DAY - 1"

datatype error =
    HTTPException nat string
  | OverflowError
  | ValueError
  | TypeError

definition timedelta_days :: "int \<Rightarrow> error + int" where
  \<comment> \<open>\<^verbatim>\<open>timedelta(days=n)\<close>: the duration in microseconds; more than 999999999 days overflow.\<close>
  "timedelta_days n = (if \<bar>n\<bar> \<le> 999999999 then Inr (n * DAY) else Inl OverflowError)"

definition datetime_add :: "datetime \<Rightarrow> int \<Rightarrow> error + datetime" where
  \<comment> \<open>\<^verbatim>\<open>datetime + timedelta\<close>: a result outside the calendar raises.\<close>
  "datetime_add t d = (if 0 \<le> t + d \<and> t + d \<le> DATETIME_MAX then Inr (t + d) else Inl OverflowError)"

definition delta_days :: "datetime \<Rightarrow> datetime \<Rightarrow> int" where
  \<comment> \<open>\<^verbatim>\<open>(a - b).days\<close>: a timedelta is normalised with the days rounded down.\<close>
  "delta_days a b = (a - b) div DAY"

subsection \<open>Documents\<close>

datatype loan_status = Borrowed | Returned | Overdue

record User =
  u_id :: string
  u_name :: string
  u_email :: string
  u_role :: string
  reading_history :: "string list"
  current_borrowings :: "string list"

record Book =
  b_id :: string
  title :: string
  author :: string
  isbn :: string
  genre :: string
  publication_year :: int
  description :: string
  total_copies :: int
  available_copies :: int
  tags :: "string list"
  created_at :: datetime

record BorrowRecord =
  r_id :: string
  user_id :: string
  book_id :: string
  borrowed_at :: datetime
  due_date :: datetime
  returned_at :: "datetime option"
  status :: loan_status
  fine_amount :: real

record BorrowRequest =
  req_book_id :: string
  borrow_days :: int

record db =
  users :: "User list"
  books :: "Book list"
  borrows :: "BorrowRecord list"

definition parse_BorrowRequest :: "string \<Rightarrow> int option \<Rightarrow> BorrowRequest" where
  \<comment> \<open>The request model: \<^verbatim>\<open>borrow_days: int = 14\<close>.\<close>
  "parse_BorrowRequest bk days =
     \<lparr>req_book_id = bk, borrow_days = (case days of None \<Rightarrow> 14 | Some d \<Rightarrow> d)\<rparr>"

subsection \<open>The store's operations\<close>

definition find_one :: "('a \<Rightarrow> bool) \<Rightarrow> 'a list \<Rightarrow> 'a option" where
  "find_one P xs = List.find P xs"

fun update_one :: "('a \<Rightarrow> bool) \<Rightarrow> ('a \<Rightarrow> 'a) \<Rightarrow> 'a list \<Rightarrow> 'a list" where
  "update_one P f [] = []"
| "update_one P f (x # xs) = (if P x then f x # xs else x # update_one P f xs)"

definition to_list :: "nat \<Rightarrow> 'a list \<Rightarrow> 'a list" where
  \<comment> \<open>\<^verbatim>\<open>cursor.to_list(n)\<close>: at most the first \<open>n\<close> documents of the cursor.\<close>
  "to_list n xs = take n xs"

subsection \<open>Errors of the lending endpoints\<close>

definition BookNotFound :: error where
  "BookNotFound = HTTPException 404 ''Book not found''"

definition BookNotAvailable :: error where
  "BookNotAvailable = HTTPException 400 ''Book not available''"

definition AlreadyBorrowed :: error where
  "AlreadyBorrowed = HTTPException 400 ''You already have this book borrowed''"

definition BorrowNotFound :: error where
  "BorrowNotFound = HTTPException 404 ''Borrow record not found''"

definition Forbidden :: error where
  "Forbidden = HTTPException 403 ''Not authorized to return this book''"

definition AlreadyReturned :: error where
  "AlreadyReturned = HTTPException 400 ''Book already returned''"

subsection \<open>Borrowing and returning\<close>

definition borrow_book ::
  "db \<Rightarrow> User \<Rightarrow> BorrowRequest \<Rightarrow> datetime \<Rightarrow> datetime \<Rightarrow> string \<Rightarrow> error + (db \<times> BorrowRecord)" where
  \<comment> \<open>\<open>now\<close> is the clock read for the due date, \<open>stamp\<close> the one read for \<^verbatim>\<open>borrowed_at\<close>,
      \<open>new_id\<close> the identifier drawn for the record.\<close>
  "borrow_book s current_user borrow_data now stamp new_id =
     (case find_one (\<lambda>b. b_id b = req_book_id borrow_data) (books s) of
        None \<Rightarrow> Inl BookNotFound
      | Some book \<Rightarrow>
          if available_copies book \<le> 0 then Inl BookNotAvailable
          else
            (case find_one (\<lambda>r. user_id r = u_id current_user
                                \<and> book_id r = req_book_id borrow_data
                                \<and> status r = Borrowed) (borrows s) of
               Some existing_borrow \<Rightarrow> Inl AlreadyBorrowed
             | None \<Rightarrow>
                 (case timedelta_days (borrow_days borrow_data) of
                    Inl e \<Rightarrow> Inl e
                  | Inr d \<Rightarrow>
                      (case datetime_add now d of
                         Inl e \<Rightarrow> Inl e
                       | Inr due \<Rightarrow>
                           let borrow_record =
                                 \<lparr>r_id = new_id, user_id = u_id current_user,
                                  book_id = req_book_id borrow_data, borrowed_at = stamp,
                                  due_date = due, returned_at = None, status = Borrowed,
                                  fine_amount = 0\<rparr>
                           in Inr
                             (\<lparr>users = update_one (\<lambda>u. u_id u = u_id current_user)
                                  (\<lambda>u. u\<lparr>current_borrowings := current_borrowings u @ [new_id]\<rparr>)
                                  (users s),
                               books = update_one (\<lambda>b. b_id b = req_book_id borrow_data)
                                  (\<lambda>b. b\<lparr>available_copies := available_copies b - 1\<rparr>)
                                  (books s),
                               borrows = borrows s @ [borrow_record]\<rparr>,
                              borrow_record)))))"

definition return_fine :: "datetime \<Rightarrow> datetime \<Rightarrow> real" where
  \<comment> \<open>Lines 366-370: a dollar for each whole day past the due date.\<close>
  "return_fine return_date due =
     (if return_date > due then real_of_int (delta_days return_date due) * 1 else 0)"

definition return_book :: "db \<Rightarrow> User \<Rightarrow> string \<Rightarrow> datetime \<Rightarrow> error + (db \<times> real)" where
  "return_book s current_user borrow_id return_date =
     (case find_one (\<lambda>r. r_id r = borrow_id) (borrows s) of
        None \<Rightarrow> Inl BorrowNotFound
      | Some borrow_record \<Rightarrow>
          if user_id borrow_record \<noteq> u_id current_user \<and> u_role current_user \<noteq> ''librarian''
          then Inl Forbidden
          else if status borrow_record = Returned then Inl AlreadyReturned
          else
            let fine = return_fine return_date (due_date borrow_record)
            in Inr
              (\<lparr>users = update_one (\<lambda>u. u_id u = user_id borrow_record)
                   (\<lambda>u. u\<lparr>current_borrowings := removeAll borrow_id (current_borrowings u),
                          reading_history := reading_history u @ [book_id borrow_record]\<rparr>)
                   (users s),
                books = update_one (\<lambda>b. b_id b = book_id borrow_record)
                   (\<lambda>b. b\<lparr>available_copies := available_copies b + 1\<rparr>)
                   (books s),
                borrows = update_one (\<lambda>r. r_id r = borrow_id)
                   (\<lambda>r. r\<lparr>returned_at := Some return_date, status := Returned,
                          fine_amount := fine\<rparr>)
                   (borrows s)\<rparr>,
               fine))"

subsection \<open>Catalogue management\<close>

record BookCreate =
  c_title :: string
  c_author :: string
  c_isbn :: string
  c_genre :: string
  c_publication_year :: int
  c_description :: string
  c_total_copies :: int
  c_tags :: "string list"

record BookUpdate =
  upd_title :: "string option"
  upd_author :: "string option"
  upd_isbn :: "string option"
  upd_genre :: "string option"
  upd_publication_year :: "int option"
  upd_description :: "string option"
  upd_total_copies :: "int option"
  upd_tags :: "string list option"

definition create_book :: "db \<Rightarrow> User \<Rightarrow> BookCreate \<Rightarrow> string \<Rightarrow> datetime \<Rightarrow> error + (db \<times> Book)" where
  "create_book s current_user book_data new_id now =
     (if u_role current_user \<noteq> ''librarian''
      then Inl (HTTPException 403 ''Only librarians can add books'')
      else
        let book = \<lparr>b_id = new_id, title = c_title book_data, author = c_author book_data,
                    isbn = c_isbn book_data, genre = c_genre book_data,
                    publication_year = c_publication_year book_data,
                    description = c_description book_data,
                    total_copies = c_total_copies book_data,
                    available_copies = c_total_copies book_data,
                    tags = c_tags book_data, created_at = now\<rparr>
        in Inr (s\<lparr>books := books s @ [book]\<rparr>, book))"

definition update_data_empty :: "BookUpdate \<Rightarrow> bool" where
  \<comment> \<open>No field of the request is set: the dictionary \<^verbatim>\<open>update_data\<close> is empty.\<close>
  "update_data_empty d \<longleftrightarrow>
     upd_title d = None \<and> upd_author d = None \<and> upd_isbn d = None \<and> upd_genre d = None
     \<and> upd_publication_year d = None \<and> upd_description d = None
     \<and> upd_total_copies d = None \<and> upd_tags d = None"

definition set_fields :: "BookUpdate \<Rightarrow> Book \<Rightarrow> Book" where
  \<comment> \<open>\<^verbatim>\<open>{"$set": update_data}\<close>: the fields that are set replace the book's; no other field
      (\<^verbatim>\<open>available_copies\<close> among them) is written.\<close>
  "set_fields d b =
     b\<lparr>title := (case upd_title d of None \<Rightarrow> title b | Some v \<Rightarrow> v),
       author := (case upd_author d of None \<Rightarrow> author b | Some v \<Rightarrow> v),
       isbn := (case upd_isbn d of None \<Rightarrow> isbn b | Some v \<Rightarrow> v),
       genre := (case upd_genre d of None \<Rightarrow> genre b | Some v \<Rightarrow> v),
       publication_year := (case upd_publication_year d of None \<Rightarrow> publication_year b | Some v \<Rightarrow> v),
       description := (case upd_description d of None \<Rightarrow> description b | Some v \<Rightarrow> v),
       total_copies := (case upd_total_copies d of None \<Rightarrow> total_copies b | Some v \<Rightarrow> v),
       tags := (case upd_tags d of None \<Rightarrow> tags b | Some v \<Rightarrow> v)\<rparr>"

definition update_book :: "db \<Rightarrow> User \<Rightarrow> string \<Rightarrow> BookUpdate \<Rightarrow> error + (db \<times> Book)" where
  "update_book s current_user bid book_data =
     (if u_role current_user \<noteq> ''librarian''
      then Inl (HTTPException 403 ''Only librarians can update books'')
      else
        (case find_one (\<lambda>b. b_id b = bid) (books s) of
           None \<Rightarrow> Inl BookNotFound
         | Some book \<Rightarrow>
             if \<not> update_data_empty book_data then
               (let s' = s\<lparr>books := update_one (\<lambda>b. b_id b = bid) (set_fields book_data) (books s)\<rparr>
                in case find_one (\<lambda>b. b_id b = bid) (books s') of
                     None \<Rightarrow> Inl TypeError
                   | Some updated_book \<Rightarrow> Inr (s', updated_book))
             else Inr (s, book)))"

fun delete_one :: "('a \<Rightarrow> bool) \<Rightarrow> 'a list \<Rightarrow> 'a list" where
  "delete_one P [] = []"
| "delete_one P (x # xs) = (if P x then xs else x # delete_one P xs)"

definition delete_book :: "db \<Rightarrow> User \<Rightarrow> string \<Rightarrow> error + db" where
  "delete_book s current_user bid =
     (if u_role current_user \<noteq> ''librarian''
      then Inl (HTTPException 403 ''Only librarians can delete books'')
      else if find_one (\<lambda>b. b_id b = bid) (books s) = None then Inl BookNotFound
      else Inr (s\<lparr>books := delete_one (\<lambda>b. b_id b = bid) (books s)\<rparr>))"

subsection \<open>The overdue sweep\<close>

record OverdueEntry =
  e_borrow :: BorrowRecord
  e_book_title :: string
  e_book_author :: string
  e_user_name :: string
  e_user_email :: string
  e_overdue_days :: int
  e_calculated_fine :: real

definition enrich_overdue :: "db \<Rightarrow> datetime \<Rightarrow> BorrowRecord \<Rightarrow> OverdueEntry" where
  \<comment> \<open>Lines 447-463: the fetched record, spread into the response with the details added.\<close>
  "enrich_overdue s current_time borrow =
     (let book = find_one (\<lambda>b. b_id b = book_id borrow) (books s);
          user = find_one (\<lambda>u. u_id u = user_id borrow) (users s);
          overdue_days = delta_days current_time (due_date borrow)
      in \<lparr>e_borrow = borrow,
          e_book_title = (case book of Some b \<Rightarrow> title b | None \<Rightarrow> ''Unknown''),
          e_book_author = (case book of Some b \<Rightarrow> author b | None \<Rightarrow> ''Unknown''),
          e_user_name = (case user of Some u \<Rightarrow> u_name u | None \<Rightarrow> ''Unknown''),
          e_user_email = (case user of Some u \<Rightarrow> u_email u | None \<Rightarrow> ''Unknown''),
          e_overdue_days = overdue_days,
          e_calculated_fine = real_of_int overdue_days * 1\<rparr>)"

definition overdue_query :: "datetime \<Rightarrow> BorrowRecord \<Rightarrow> bool" where
  \<comment> \<open>\<^verbatim>\<open>{"status": "borrowed", "due_date": {"$lt": current_time}}\<close>\<close>
  "overdue_query current_time r \<longleftrightarrow> status r = Borrowed \<and> due_date r < current_time"

definition mark_overdue :: "BorrowRecord \<Rightarrow> BorrowRecord list \<Rightarrow> BorrowRecord list" where
  \<comment> \<open>One turn of the loop of lines 439-443.\<close>
  "mark_overdue borrow bs = update_one (\<lambda>r. r_id r = r_id borrow) (\<lambda>r. r\<lparr>status := Overdue\<rparr>) bs"

definition get_overdue_books :: "db \<Rightarrow> User \<Rightarrow> datetime \<Rightarrow> error + (db \<times> OverdueEntry list)" where
  "get_overdue_books s current_user current_time =
     (if u_role current_user \<noteq> ''librarian''
      then Inl (HTTPException 403 ''Only librarians can view overdue books'')
      else
        let overdue_borrows = to_list 1000 (filter (overdue_query current_time) (borrows s));
            s' = s\<lparr>borrows := fold mark_overdue overdue_borrows (borrows s)\<rparr>
        in Inr (s', map (enrich_overdue s' current_time) overdue_borrows))"

subsection \<open>Recommendations\<close>

record BookRecommendation =
  rec_book_id :: string
  rec_title :: string
  rec_author :: string
  similarity_score :: real
  reason :: string

fun join :: "string \<Rightarrow> string list \<Rightarrow> string" where
  "join sep [] = []"
| "join sep [x] = x"
| "join sep (x # y # ys) = x @ sep @ join sep (y # ys)"

definition limit_cursor :: "nat \<Rightarrow> 'a list \<Rightarrow> 'a list" where
  \<comment> \<open>\<^verbatim>\<open>cursor.limit(n)\<close>: a limit of 0 is no limit.\<close>
  "limit_cursor n xs = (if n = 0 then xs else take n xs)"

definition slice_to :: "int \<Rightarrow> 'a list \<Rightarrow> 'a list" where
  \<comment> \<open>The Python slice \<^verbatim>\<open>xs[:limit]\<close>: a negative bound counts from the end.\<close>
  "slice_to limit xs =
     (if 0 \<le> limit then take (nat limit) xs else take (length xs - nat (- limit)) xs)"

definition popular :: "Book \<Rightarrow> BookRecommendation" where
  "popular book =
     \<lparr>rec_book_id = b_id book, rec_title = title book, rec_author = author book,
      similarity_score = 0.5, reason = ''Popular book''\<rparr>"

definition collect_profile :: "Book \<Rightarrow> string set \<times> string set \<Rightarrow> string set \<times> string set" where
  \<comment> \<open>One turn of the loop of lines 499-501 on \<^verbatim>\<open>(user_genres, user_tags)\<close>.\<close>
  "collect_profile book p = (insert (genre book) (fst p), snd p \<union> set (tags book))"

definition score_book ::
  "(string set \<Rightarrow> string list) \<Rightarrow> string set \<Rightarrow> string set \<Rightarrow> Book \<Rightarrow> real \<times> string list" where
  \<comment> \<open>Lines 508-521: the score and the reasons of one book. \<open>set_order\<close> is the order in
      which the interpreter lists a set (\<^verbatim>\<open>list(common_tags)\<close>), which the source leaves open.\<close>
  "score_book set_order user_genres user_tags book =
     (let (score, reasons) =
            (if genre book \<in> user_genres
             then (0 + 0.5, [''Similar genre: '' @ genre book])
             else (0, []));
          common_tags = user_tags \<inter> set (tags book)
      in if common_tags \<noteq> {}
         then (score + real (card common_tags) * 0.2,
               reasons @ [''Common tags: '' @ join '', '' (take 2 (set_order common_tags))])
         else (score, reasons))"

definition recommend_step ::
  "(string set \<Rightarrow> string list) \<Rightarrow> string list \<Rightarrow> string set \<Rightarrow> string set \<Rightarrow> Book
     \<Rightarrow> BookRecommendation list \<Rightarrow> BookRecommendation list" where
  \<comment> \<open>One turn of the loop of lines 504-531 on the list \<^verbatim>\<open>recommendations\<close>.\<close>
  "recommend_step set_order history user_genres user_tags book recommendations =
     (if b_id book \<in> set history then recommendations
      else
        let (score, reasons) = score_book set_order user_genres user_tags book
        in if score > 0
           then recommendations @
                [\<lparr>rec_book_id = b_id book, rec_title = title book, rec_author = author book,
                  similarity_score = score,
                  reason = (if reasons \<noteq> [] then join ''; '' reasons else ''Recommended for you'')\<rparr>]
           else recommendations)"

definition get_book_recommendations ::
  "(string set \<Rightarrow> string list) \<Rightarrow> db \<Rightarrow> string \<Rightarrow> int \<Rightarrow> error + BookRecommendation list" where
  \<comment> \<open>The driver's \<^verbatim>\<open>to_list\<close> refuses a negative length with a \<^verbatim>\<open>ValueError\<close>. The cursor
      sorted on \<^verbatim>\<open>created_at\<close> keeps documents of equal key in the collection's order.\<close>
  "get_book_recommendations set_order s uid limit =
     (case find_one (\<lambda>u. u_id u = uid) (users s) of
        None \<Rightarrow> Inl (HTTPException 404 ''User not found'')
      | Some user \<Rightarrow>
          if reading_history user = [] then
            (if limit < 0 then Inl ValueError
             else
               let popular_books =
                     to_list (nat limit)
                       (limit_cursor (nat limit) (sort_key (\<lambda>b. - created_at b) (books s)))
               in Inr (map popular popular_books))
          else
            let read_books =
                  to_list 1000 (filter (\<lambda>b. b_id b \<in> set (reading_history user)) (books s));
                all_books = to_list 1000 (books s);
                (user_genres, user_tags) = fold collect_profile read_books ({}, {});
                recommendations =
                  fold (recommend_step set_order (reading_history user) user_genres user_tags)
                    all_books []
            in Inr (slice_to limit (sort_key (\<lambda>r. - similarity_score r) recommendations)))"

subsection \<open>Overdue predictions\<close>

record OverduePrediction =
  p_borrow_id :: string
  p_user_id :: string
  p_book_title :: string
  probability :: real
  risk_level :: string

datatype query_value = QDate datetime | QString string

fun field_gt :: "datetime option \<Rightarrow> query_value \<Rightarrow> bool" where
  \<comment> \<open>The query operator \<^verbatim>\<open>$gt\<close> on a field holding a date or null: the store compares
      values of one type only, so no such field is greater than a string operand.\<close>
  "field_gt (Some t) (QDate d) = (t > d)"
| "field_gt _ _ = False"

definition user_total_borrows :: "db \<Rightarrow> string \<Rightarrow> nat" where
  "user_total_borrows s uid = length (filter (\<lambda>r. user_id r = uid) (borrows s))"

definition user_overdue_count :: "db \<Rightarrow> string \<Rightarrow> nat" where
  \<comment> \<open>Lines 591-595: the operand of \<^verbatim>\<open>$gt\<close> is the string \<^verbatim>\<open>"$due_date"\<close>.\<close>
  "user_overdue_count s uid =
     length (filter (\<lambda>r. user_id r = uid
                         \<and> status r \<in> {Overdue, Returned}
                         \<and> field_gt (returned_at r) (QString ''$due_date'')) (borrows s))"

definition overdue_rate :: "db \<Rightarrow> string \<Rightarrow> real" where
  "overdue_rate s uid = real (user_overdue_count s uid) / real (max (user_total_borrows s uid) 1)"

definition overdue_probability :: "int \<Rightarrow> real \<Rightarrow> real" where
  "overdue_probability days_until_due rate =
     (if days_until_due \<le> 0 then 0.95
      else if days_until_due \<le> 2 then 0.7 + rate * 0.2
      else if days_until_due \<le> 5 then 0.4 + rate * 0.3
      else rate)"

definition risk_of :: "real \<Rightarrow> string" where
  "risk_of p = (if p \<ge> 0.7 then ''High'' else if p \<ge> 0.4 then ''Medium'' else ''Low'')"

definition predict_step ::
  "db \<Rightarrow> (BorrowRecord \<Rightarrow> datetime) \<Rightarrow> BorrowRecord \<Rightarrow> OverduePrediction list
     \<Rightarrow> OverduePrediction list" where
  \<comment> \<open>One turn of the loop of lines 579-624; \<open>utcnow borrow\<close> is the clock read in that turn.\<close>
  "predict_step s utcnow borrow predictions =
     (case (find_one (\<lambda>u. u_id u = user_id borrow) (users s),
            find_one (\<lambda>b. b_id b = book_id borrow) (books s)) of
        (Some user, Some book) \<Rightarrow>
          let days_until_due = delta_days (due_date borrow) (utcnow borrow);
              p = overdue_probability days_until_due (overdue_rate s (user_id borrow))
          in predictions @
             [\<lparr>p_borrow_id = r_id borrow, p_user_id = user_id borrow, p_book_title = title book,
               probability = p, risk_level = risk_of p\<rparr>]
      | _ \<Rightarrow> predictions)"

definition get_overdue_predictions ::
  "db \<Rightarrow> User \<Rightarrow> (BorrowRecord \<Rightarrow> datetime) \<Rightarrow> error + OverduePrediction list" where
  "get_overdue_predictions s current_user utcnow =
     (if u_role current_user \<noteq> ''librarian''
      then Inl (HTTPException 403 ''Only librarians can view analytics'')
      else
        let current_borrows = to_list 1000 (filter (\<lambda>r. status r = Borrowed) (borrows s));
            predictions = fold (predict_step s utcnow) current_borrows []
        in Inr (sort_key (\<lambda>p. - probability p) predictions))"

subsection \<open>Sequences of calls\<close>

text \<open>
  One successful call of an endpoint that writes to the store. A fresh identifier is one
  that the collection does not hold yet, which is what \<^verbatim>\<open>uuid.uuid4()\<close> stands for.
  A call that fails raises before its first write and leaves the store as it was.
\<close>

inductive step :: "db \<Rightarrow> db \<Rightarrow> bool" where
  step_register:
    "reading_history u = [] \<Longrightarrow> current_borrowings u = []
       \<Longrightarrow> step s (s\<lparr>users := users s @ [u]\<rparr>)"
| step_create:
    "create_book s cu book_data new_id now = Inr (s', b) \<Longrightarrow> new_id \<notin> b_id ` set (books s)
       \<Longrightarrow> step s s'"
| step_update:
    "update_book s cu bid book_data = Inr (s', b) \<Longrightarrow> step s s'"
| step_delete:
    "delete_book s cu bid = Inr s' \<Longrightarrow> step s s'"
| step_borrow:
    "borrow_book s cu borrow_data now stamp new_id = Inr (s', r)
       \<Longrightarrow> new_id \<notin> r_id ` set (borrows s) \<Longrightarrow> step s s'"
| step_return:
    "return_book s cu borrow_id now = Inr (s', fine) \<Longrightarrow> step s s'"
| step_sweep:
    "get_overdue_books s cu now = Inr (s', out) \<Longrightarrow> step s s'"

subsection \<open>Properties of the ledger\<close>

definition active :: "BorrowRecord \<Rightarrow> bool" where
  \<comment> \<open>A loan that holds a copy: borrowed or overdue.\<close>
  "active r \<longleftrightarrow> status r = Borrowed \<or> status r = Overdue"

definition active_loans :: "db \<Rightarrow> string \<Rightarrow> nat" where
  "active_loans s bid = length (filter (\<lambda>r. book_id r = bid \<and> active r) (borrows s))"

definition ledger_inv :: "db \<Rightarrow> bool" where
  \<comment> \<open>The availability invariant of the specification, for every book of the catalogue.\<close>
  "ledger_inv s =
     list_all (\<lambda>b. 0 \<le> available_copies b \<and> available_copies b \<le> total_copies b
                  \<and> available_copies b = total_copies b - int (active_loans s (b_id b)))
       (books s)"

definition one_borrowed_per_pair :: "db \<Rightarrow> bool" where
  \<comment> \<open>No user holds two loans of status \<^verbatim>\<open>borrowed\<close> on one book.\<close>
  "one_borrowed_per_pair s =
     distinct (map (\<lambda>r. (user_id r, book_id r)) (filter (\<lambda>r. status r = Borrowed) (borrows s)))"

definition one_active_per_pair :: "db \<Rightarrow> bool" where
  \<comment> \<open>No user holds two active loans on one book.\<close>
  "one_active_per_pair s =
     distinct (map (\<lambda>r. (user_id r, book_id r)) (filter active (borrows s)))"

definition overdue_selection :: "db \<Rightarrow> datetime \<Rightarrow> BorrowRecord list" where
  \<comment> \<open>The loans one sweep fetches: the first thousand that match the query.\<close>
  "overdue_selection s now = to_list 1000 (filter (overdue_query now) (borrows s))"

subsection \<open>A small library\<close>

definition T0 :: datetime where
  "T0 = 63800000000000000"

definition librarian :: User where
  "librarian = \<lparr>u_id = ''u0'', u_name = ''Lee'', u_email = ''lee@library.example'',
                 u_role = ''librarian'', reading_history = [], current_borrowings = []\<rparr>"

definition alice :: User where
  "alice = \<lparr>u_id = ''u1'', u_name = ''Alice'', u_email = ''alice@library.example'',
             u_role = ''member'', reading_history = [], current_borrowings = []\<rparr>"

definition bob :: User where
  "bob = \<lparr>u_id = ''u2'', u_name = ''Bob'', u_email = ''bob@library.example'',
           u_role = ''member'', reading_history = [], current_borrowings = []\<rparr>"

definition dune :: Book where
  "dune = \<lparr>b_id = ''b1'', title = ''Dune'', author = ''Frank Herbert'', isbn = ''9780441013593'',
            genre = ''Sci-Fi'', publication_year = 1965, description = ''Arrakis'',
            total_copies = 1, available_copies = 1, tags = [''a'', ''b''], created_at = 10\<rparr>"

definition shelf :: db where
  "shelf = \<lparr>users = [librarian, alice, bob], books = [dune], borrows = []\<rparr>"

definition loan1 :: BorrowRecord where
  "loan1 = \<lparr>r_id = ''l1'', user_id = ''u1'', book_id = ''b1'', borrowed_at = T0 + 1,
             due_date = T0 + 14 * DAY, returned_at = None, status = Borrowed, fine_amount = 0\<rparr>"

definition lent :: db where
  \<comment> \<open>\<open>shelf\<close> after Alice has borrowed the only copy of the book for 14 days.\<close>
  "lent = \<lparr>users = [librarian, alice\<lparr>current_borrowings := [''l1'']\<rparr>, bob],
            books = [dune\<lparr>available_copies := 0\<rparr>], borrows = [loan1]\<rparr>"

definition late_loan :: "nat \<Rightarrow> BorrowRecord" where
  \<comment> \<open>The loan of reader number \<open>n\<close>, sixteen days past its due date at \<open>T0\<close>.\<close>
  "late_loan n =
     \<lparr>r_id = ''l'' @ replicate n CHR ''i'', user_id = ''r'' @ replicate n CHR ''i'',
      book_id = ''b1'', borrowed_at = T0 - 30 * DAY, due_date = T0 - 16 * DAY,
      returned_at = None, status = Borrowed, fine_amount = 0\<rparr>"

definition reader :: "nat \<Rightarrow> User" where
  "reader n =
     \<lparr>u_id = ''r'' @ replicate n CHR ''i'', u_name = ''Reader'', u_email = ''reader@library.example'',
      u_role = ''member'', reading_history = [],
      current_borrowings = [''l'' @ replicate n CHR ''i'']\<rparr>"

definition crowded :: db where
  \<comment> \<open>A library where 1001 readers each hold a late copy of one book.\<close>
  "crowded =
     \<lparr>users = librarian # map reader [0..<1001],
      books = [dune\<lparr>total_copies := 2000, available_copies := 999\<rparr>],
      borrows = map late_loan [0..<1001]\<rparr>"

definition crowded_swept :: db where
  "crowded_swept =
     \<lparr>users = librarian # map reader [0..<1001],
      books = [dune\<lparr>total_copies := 2000, available_copies := 999\<rparr>],
      borrows = map (\<lambda>n. (late_loan n)\<lparr>status := Overdue\<rparr>) [0..<1000] @ [late_loan 1000]\<rparr>"

definition loan1_back :: BorrowRecord where
  "loan1_back = loan1\<lparr>returned_at := Some (T0 + 14 * DAY), status := Returned\<rparr>"

definition handed_back :: db where
  \<comment> \<open>\<open>lent\<close> after Alice has returned the book on the due date.\<close>
  "handed_back = \<lparr>users = [librarian, alice\<lparr>reading_history := [''b1'']\<rparr>, bob],
            books = [dune], borrows = [loan1_back]\<rparr>"

definition loan2 :: BorrowRecord where
  "loan2 = \<lparr>r_id = ''l2'', user_id = ''u2'', book_id = ''b1'', borrowed_at = T0 + 15 * DAY + 1,
             due_date = T0 + 29 * DAY, returned_at = None, status = Borrowed, fine_amount = 0\<rparr>"

definition relent :: db where
  \<comment> \<open>\<open>handed_back\<close> after Bob has borrowed the book in turn.\<close>
  "relent = \<lparr>users = [librarian, alice\<lparr>reading_history := [''b1'']\<rparr>,
                       bob\<lparr>current_borrowings := [''l2'']\<rparr>],
              books = [dune\<lparr>available_copies := 0\<rparr>], borrows = [loan1_back, loan2]\<rparr>"

definition stocked :: db where
  \<comment> \<open>The library with two copies of the book.\<close>
  "stocked = \<lparr>users = [librarian, alice, bob],
               books = [dune\<lparr>total_copies := 2, available_copies := 2\<rparr>], borrows = []\<rparr>"

definition stocked_lent :: db where
  "stocked_lent =
     \<lparr>users = [librarian, alice\<lparr>current_borrowings := [''l1'']\<rparr>, bob],
      books = [dune\<lparr>total_copies := 2, available_copies := 1\<rparr>], borrows = [loan1]\<rparr>"

definition stocked_late :: db where
  \<comment> \<open>\<open>stocked_lent\<close> after a sweep has found Alice's loan overdue.\<close>
  "stocked_late =
     \<lparr>users = [librarian, alice\<lparr>current_borrowings := [''l1'']\<rparr>, bob],
      books = [dune\<lparr>total_copies := 2, available_copies := 1\<rparr>],
      borrows = [loan1\<lparr>status := Overdue\<rparr>]\<rparr>"

definition loan3 :: BorrowRecord where
  "loan3 = \<lparr>r_id = ''l3'', user_id = ''u1'', book_id = ''b1'', borrowed_at = T0 + 21 * DAY + 1,
             due_date = T0 + 35 * DAY, returned_at = None, status = Borrowed, fine_amount = 0\<rparr>"

subsection \<open>The recommendation rule of the specification\<close>

definition spec_score :: "string set \<Rightarrow> string set \<Rightarrow> Book \<Rightarrow> real" where
  \<comment> \<open>\<open>score(b) = 0.5\<cdot>[genre(b) \<in> user_genres] + 0.2\<cdot>|tags(b) \<inter> user_tags|\<close>\<close>
  "spec_score user_genres user_tags b =
     0.5 * (if genre b \<in> user_genres then 1 else 0)
     + 0.2 * real (card (set (tags b) \<inter> user_tags))"

definition read_books :: "db \<Rightarrow> User \<Rightarrow> Book list" where
  \<comment> \<open>The books of the user's history that the endpoint fetches: the first thousand.\<close>
  "read_books s user = take 1000 (filter (\<lambda>b. b_id b \<in> set (reading_history user)) (books s))"

definition profile_genres :: "db \<Rightarrow> User \<Rightarrow> string set" where
  "profile_genres s user = genre ` set (read_books s user)"

definition profile_tags :: "db \<Rightarrow> User \<Rightarrow> string set" where
  "profile_tags s user = \<Union> (set ` tags ` set (read_books s user))"

definition candidates :: "db \<Rightarrow> User \<Rightarrow> Book list" where
  \<comment> \<open>The books the endpoint recommends, in catalogue order: those of the first thousand of
      the catalogue that the user has not read and that score above zero.\<close>
  "candidates s user =
     filter (\<lambda>b. b_id b \<notin> set (reading_history user)
                 \<and> 0 < spec_score (profile_genres s user) (profile_tags s user) b)
       (take 1000 (books s))"

definition recommendation_of ::
  "(string set \<Rightarrow> string list) \<Rightarrow> string set \<Rightarrow> string set \<Rightarrow> Book \<Rightarrow> BookRecommendation" where
  \<comment> \<open>The entry the loop of lines 504-531 appends for a book it keeps.\<close>
  "recommendation_of set_order user_genres user_tags book =
     \<lparr>rec_book_id = b_id book, rec_title = title book, rec_author = author book,
      similarity_score = fst (score_book set_order user_genres user_tags book),
      reason = (if snd (score_book set_order user_genres user_tags book) \<noteq> []
                then join ''; '' (snd (score_book set_order user_genres user_tags book))
                else ''Recommended for you'')\<rparr>"

subsection \<open>A reading room\<close>

definition abc_order :: "string set \<Rightarrow> string list" where
  \<comment> \<open>An order in which a set of the tags \<open>a\<close>, \<open>b\<close>, \<open>c\<close> may be listed.\<close>
  "abc_order S = filter (\<lambda>t. t \<in> S) [''a'', ''b'', ''c'']"

definition emma :: Book where
  "emma = \<lparr>b_id = ''b2'', title = ''Emma'', author = ''Jane Austen'', isbn = ''9780141439587'',
            genre = ''Romance'', publication_year = 1815, description = ''Highbury'',
            total_copies = 1, available_copies = 1, tags = [''c''], created_at = 30\<rparr>"

definition foundation :: Book where
  "foundation = \<lparr>b_id = ''b3'', title = ''Foundation'', author = ''Isaac Asimov'',
            isbn = ''9780553293357'', genre = ''Sci-Fi'', publication_year = 1951,
            description = ''Trantor'', total_copies = 1, available_copies = 1,
            tags = [''a''], created_at = 20\<rparr>"

definition hobbit :: Book where
  "hobbit = \<lparr>b_id = ''b4'', title = ''The Hobbit'', author = ''J. R. R. Tolkien'',
            isbn = ''9780261102217'', genre = ''Fantasy'', publication_year = 1937,
            description = ''Erebor'', total_copies = 1, available_copies = 1,
            tags = [''b''], created_at = 25\<rparr>"

definition solaris :: Book where
  "solaris = \<lparr>b_id = ''b5'', title = ''Solaris'', author = ''Stanislaw Lem'',
            isbn = ''9780156027601'', genre = ''Sci-Fi'', publication_year = 1961,
            description = ''Ocean'', total_copies = 1, available_copies = 1,
            tags = [''b'', ''c''], created_at = 15\<rparr>"

definition ubik :: Book where
  "ubik = \<lparr>b_id = ''b6'', title = ''Ubik'', author = ''Philip K. Dick'',
            isbn = ''9780547572291'', genre = ''Sci-Fi'', publication_year = 1969,
            description = ''Half-life'', total_copies = 1, available_copies = 1,
            tags = [''a'', ''b''], created_at = 40\<rparr>"

definition carol :: User where
  "carol = \<lparr>u_id = ''u3'', u_name = ''Carol'', u_email = ''carol@library.example'',
             u_role = ''member'', reading_history = [''b1''], current_borrowings = []\<rparr>"

definition reading_room :: db where
  \<comment> \<open>Carol has read the first book; Alice has read nothing.\<close>
  "reading_room =
     \<lparr>users = [librarian, alice, carol],
      books = [dune, emma, foundation, hobbit, solaris, ubik],
      borrows = [\<lparr>r_id = ''l0'', user_id = ''u3'', book_id = ''b1'', borrowed_at = T0 - 20 * DAY,
                  due_date = T0 - 6 * DAY, returned_at = Some (T0 - 10 * DAY),
                  status = Returned, fine_amount = 0\<rparr>]\<rparr>"

definition volume :: "nat \<Rightarrow> Book" where
  \<comment> \<open>Book number \<open>n\<close> of a large catalogue: the first and the last are science fiction.\<close>
  "volume n =
     \<lparr>b_id = ''v'' @ replicate n CHR ''i'', title = ''Volume'', author = ''Anonymous'',
      isbn = ''0'', genre = (if n = 0 \<or> n = 1000 then ''Sci-Fi'' else ''Atlas''),
      publication_year = 2000, description = ''Shelf'', total_copies = 1, available_copies = 1,
      tags = [], created_at = int n\<rparr>"

definition dana :: User where
  "dana = \<lparr>u_id = ''u4'', u_name = ''Dana'', u_email = ''dana@library.example'',
            u_role = ''member'', reading_history = [''v''], current_borrowings = []\<rparr>"

definition vast :: db where
  \<comment> \<open>A catalogue of 1001 books, of which Dana has read the first.\<close>
  "vast =
     \<lparr>users = [librarian, dana],
      books = map volume [0..<1001],
      borrows = [\<lparr>r_id = ''l0'', user_id = ''u4'', book_id = ''v'', borrowed_at = T0 - 20 * DAY,
                  due_date = T0 - 6 * DAY, returned_at = Some (T0 - 10 * DAY),
                  status = Returned, fine_amount = 0\<rparr>]\<rparr>"

subsection \<open>The overdue rate of the specification\<close>

definition spec_overdue_count :: "db \<Rightarrow> string \<Rightarrow> nat" where
  \<comment> \<open>The user's loans that are overdue or were returned after their due date.\<close>
  "spec_overdue_count s uid =
     length (filter (\<lambda>r. user_id r = uid
                         \<and> (status r = Overdue
                            \<or> (case returned_at r of Some t \<Rightarrow> due_date r < t | None \<Rightarrow> False)))
               (borrows s))"

definition spec_overdue_rate :: "db \<Rightarrow> string \<Rightarrow> real" where
  "spec_overdue_rate s uid =
     real (spec_overdue_count s uid) / real (max (user_total_borrows s uid) 1)"

definition risky :: db where
  \<comment> \<open>Carol returned her first loan ten days late and holds a second one, due in ten days.\<close>
  "risky =
     \<lparr>users = [librarian, carol\<lparr>current_borrowings := [''l8'']\<rparr>],
      books = [dune, solaris\<lparr>available_copies := 0\<rparr>],
      borrows = [\<lparr>r_id = ''l0'', user_id = ''u3'', book_id = ''b1'', borrowed_at = T0 - 34 * DAY,
                  due_date = T0 - 20 * DAY, returned_at = Some (T0 - 10 * DAY),
                  status = Returned, fine_amount = 10\<rparr>,
                 \<lparr>r_id = ''l8'', user_id = ''u3'', book_id = ''b5'', borrowed_at = T0 - 4 * DAY,
                  due_date = T0 + 10 * DAY, returned_at = None,
                  status = Borrowed, fine_amount = 0\<rparr>]\<rparr>"

definition one_copy :: BookUpdate where
  \<comment> \<open>The update request that sets \<^verbatim>\<open>total_copies\<close> to 1 and nothing else.\<close>
  "one_copy = \<lparr>upd_title = None, upd_author = None, upd_isbn = None, upd_genre = None,
                upd_publication_year = None, upd_description = None,
                upd_total_copies = Some 1, upd_tags = None\<rparr>"

definition prediction_of :: "db \<Rightarrow> (BorrowRecord \<Rightarrow> datetime) \<Rightarrow> BorrowRecord \<Rightarrow> OverduePrediction list" where
  \<comment> \<open>What one turn of the loop of lines 579-624 appends: an entry, or nothing when the
      loan's user or book is missing.\<close>
  "prediction_of s utcnow borrow =
     (case (find_one (\<lambda>u. u_id u = user_id borrow) (users s),
            find_one (\<lambda>b. b_id b = book_id borrow) (books s)) of
        (Some user, Some book) \<Rightarrow>
          [\<lparr>p_borrow_id = r_id borrow, p_user_id = user_id borrow, p_book_title = title book,
            probability = overdue_probability (delta_days (due_date borrow) (utcnow borrow))
                            (overdue_rate s (user_id borrow)),
            risk_level = risk_of (overdue_probability (delta_days (due_date borrow) (utcnow borrow))
                            (overdue_rate s (user_id borrow)))\<rparr>]
      | _ \<Rightarrow> [])"

section \<open>Proofs\<close>

lemmas example_defs =
  shelf_def lent_def handed_back_def relent_def stocked_def stocked_lent_def stocked_late_def
  loan1_def loan1_back_def loan2_def loan3_def librarian_def alice_def bob_def dune_def

lemmas eval_defs =
  borrow_book_def return_book_def get_overdue_books_def find_one_def to_list_def
  timedelta_days_def datetime_add_def delta_days_def return_fine_def overdue_query_def
  mark_overdue_def enrich_overdue_def overdue_selection_def Let_def
  DATETIME_MAX_def DAY_def T0_def

subsection \<open>The store\<close>

lemma find_one_Some_iff:
  "find_one P xs = Some x \<Longrightarrow> x \<in> set xs \<and> P x"
  unfolding find_one_def by (auto simp: find_Some_iff)

lemma find_one_None_iff: "find_one P xs = None \<longleftrightarrow> (\<forall>x\<in>set xs. \<not> P x)"
  unfolding find_one_def by (auto simp: find_None_iff)

lemma find_one_update_one:
  "find_one P xs = Some x \<Longrightarrow> P (f x) \<Longrightarrow> find_one P (update_one P f xs) = Some (f x)"
  unfolding find_one_def by (induction xs) (auto split: if_splits)

lemma find_one_update_other:
  "(\<And>x. P x \<Longrightarrow> \<not> Q x \<and> \<not> Q (f x)) \<Longrightarrow> find_one Q (update_one P f xs) = find_one Q xs"
  unfolding find_one_def by (induction xs) auto

lemma find_one_distinct:
  "distinct (map g xs) \<Longrightarrow> x \<in> set xs \<Longrightarrow> find_one (\<lambda>y. g y = g x) xs = Some x"
  unfolding find_one_def by (induction xs) (auto simp: image_iff)

lemma map_update_one:
  "(\<And>x. g (f x) = g x) \<Longrightarrow> map g (update_one P f xs) = map g xs"
  by (induction xs) auto

lemma update_one_distinct:
  "distinct (map g xs) \<Longrightarrow>
     update_one (\<lambda>x. g x = k) f xs = map (\<lambda>x. if g x = k then f x else x) xs"
proof (induction xs)
  case Nil
  then show ?case by simp
next
  case (Cons x xs)
  show ?case
  proof (cases "g x = k")
    case True
    with Cons.prems have "\<forall>y\<in>set xs. g y \<noteq> k" by (auto simp: image_iff)
    then have "map (\<lambda>x. if g x = k then f x else x) xs = xs"
      by (simp add: map_idI)
    with True show ?thesis by simp
  next
    case False
    with Cons show ?thesis by simp
  qed
qed

lemma fold_mark_overdue:
  "distinct (map r_id bs) \<Longrightarrow>
     fold mark_overdue sel bs =
       map (\<lambda>r. if r_id r \<in> r_id ` set sel then r\<lparr>status := Overdue\<rparr> else r) bs"
proof (induction sel arbitrary: bs)
  case Nil
  then show ?case by (simp add: map_idI)
next
  case (Cons x sel)
  have one: "mark_overdue x bs = map (\<lambda>r. if r_id r = r_id x then r\<lparr>status := Overdue\<rparr> else r) bs"
    unfolding mark_overdue_def using Cons.prems by (rule update_one_distinct)
  have ids: "map r_id (mark_overdue x bs) = map r_id bs"
    unfolding mark_overdue_def by (rule map_update_one) simp
  have "fold mark_overdue (x # sel) bs = fold mark_overdue sel (mark_overdue x bs)"
    by simp
  also have "\<dots> = map (\<lambda>r. if r_id r \<in> r_id ` set sel then r\<lparr>status := Overdue\<rparr> else r)
                      (mark_overdue x bs)"
    using Cons.prems by (intro Cons.IH) (simp add: ids)
  also have "\<dots> = map (\<lambda>r. if r_id r \<in> r_id ` set (x # sel) then r\<lparr>status := Overdue\<rparr> else r) bs"
    unfolding one by (auto simp: o_def)
  finally show ?case .
qed


lemma sel_subset: "set (to_list n (filter P xs)) \<subseteq> {x \<in> set xs. P x}"
  unfolding to_list_def using set_take_subset [of n "filter P xs"] by auto

lemma id_mem_iff:
  assumes "distinct (map g xs)" "set sel \<subseteq> set xs" "x \<in> set xs"
  shows "g x \<in> g ` set sel \<longleftrightarrow> x \<in> set sel"
proof -
  have "inj_on g (set xs)" using assms(1) by (simp add: distinct_map)
  then show ?thesis using assms(2,3) by (auto dest: inj_onD)
qed

lemma sweep_borrows:
  assumes "distinct (map r_id (borrows s))"
  shows "fold mark_overdue (to_list 1000 (filter (overdue_query now) (borrows s))) (borrows s) =
           map (\<lambda>r. if r \<in> set (to_list 1000 (filter (overdue_query now) (borrows s)))
                     then r\<lparr>status := Overdue\<rparr> else r) (borrows s)"
proof -
  let ?sel = "to_list 1000 (filter (overdue_query now) (borrows s))"
  have sub: "set ?sel \<subseteq> set (borrows s)" using sel_subset [of 1000 "overdue_query now" "borrows s"] by auto
  have "fold mark_overdue ?sel (borrows s) =
          map (\<lambda>r. if r_id r \<in> r_id ` set ?sel then r\<lparr>status := Overdue\<rparr> else r) (borrows s)"
    using assms by (rule fold_mark_overdue)
  also have "\<dots> = map (\<lambda>r. if r \<in> set ?sel then r\<lparr>status := Overdue\<rparr> else r) (borrows s)"
    by (rule map_cong) (auto simp: id_mem_iff [OF assms sub])
  finally show ?thesis .
qed

lemma get_overdue_books_eq:
  assumes "u_role cu = ''librarian''" "distinct (map r_id (borrows s))"
  shows "get_overdue_books s cu now =
     Inr (s\<lparr>borrows := map (\<lambda>r. if r \<in> set (to_list 1000 (filter (overdue_query now) (borrows s)))
                     then r\<lparr>status := Overdue\<rparr> else r) (borrows s)\<rparr>,
          map (enrich_overdue
                 (s\<lparr>borrows := map (\<lambda>r. if r \<in> set (to_list 1000 (filter (overdue_query now) (borrows s)))
                     then r\<lparr>status := Overdue\<rparr> else r) (borrows s)\<rparr>) now)
              (to_list 1000 (filter (overdue_query now) (borrows s))))"
  unfolding get_overdue_books_def Let_def using assms(1) by (simp add: sweep_borrows [OF assms(2)])

subsection \<open>Fines\<close>

lemma return_fine_max:
  "return_fine t due = max 0 (real_of_int ((t - due) div DAY)) * 1"
  unfolding return_fine_def delta_days_def DAY_def
  by (auto simp: max_def pos_imp_zdiv_nonneg_iff div_neg_pos_less0 not_less)

lemma lent_find: "find_one (\<lambda>r. r_id r = ''l1'') (borrows lent) = Some loan1"
  by (simp add: find_one_def lent_def loan1_def)

text \<open>
  Claim C4. Returning a loan that is not yet returned (its status borrowed or overdue alike)
  by its borrower or a librarian succeeds, and the fine is the number of whole days by which
  the return time exceeds the due date, never below zero, at the rate of 1 per day; the stored
  record takes that fine with the status \<^verbatim>\<open>returned\<close> and the return time. A return
  exactly \<open>k\<close> days late costs \<open>k\<close>: 0 for 0 days, 1 for one day, 10 for ten days.
\<close>

theorem return_book_fine:
  assumes "find_one (\<lambda>r. r_id r = borrow_id) (borrows s) = Some r"
      and "user_id r = u_id cu \<or> u_role cu = ''librarian''"
      and "status r \<noteq> Returned"
  shows "\<exists>s' fine. return_book s cu borrow_id now = Inr (s', fine)
            \<and> fine = max 0 (real_of_int ((now - due_date r) div DAY)) * 1
            \<and> (\<forall>k\<ge>0. now = due_date r + k * DAY \<longrightarrow> fine = real_of_int k)
            \<and> find_one (\<lambda>r. r_id r = borrow_id) (borrows s') =
                Some (r\<lparr>returned_at := Some now, status := Returned, fine_amount := fine\<rparr>)"
proof -
  have idr: "r_id r = borrow_id"
    using find_one_Some_iff [OF assms(1)] by simp
  have days: "DAY \<noteq> 0"
    by (simp add: DAY_def)
  show ?thesis
    using assms idr
    by (auto simp: return_book_def Let_def return_fine_max find_one_update_one days)
qed

theorem return_book_fine_witness:
  "find_one (\<lambda>r. r_id r = ''l1'') (borrows lent) = Some loan1
   \<and> (user_id loan1 = u_id alice \<or> u_role alice = ''librarian'')
   \<and> status loan1 \<noteq> Returned
   \<and> return_book lent alice ''l1'' (T0 + 14 * DAY) =
       Inr (\<lparr>users = [librarian, alice\<lparr>reading_history := [''b1'']\<rparr>, bob],
             books = [dune],
             borrows = [loan1\<lparr>returned_at := Some (T0 + 14 * DAY), status := Returned\<rparr>]\<rparr>, 0)
   \<and> snd (projr (return_book lent alice ''l1'' (T0 + 15 * DAY))) = 1
   \<and> snd (projr (return_book lent alice ''l1'' (T0 + 24 * DAY))) = 10
   \<and> snd (projr (return_book lent alice ''l1'' (T0 + 25 * DAY - 1))) = 10"
  using return_book_fine [OF lent_find, of alice "T0 + 14 * DAY"]
        return_book_fine [OF lent_find, of alice "T0 + 15 * DAY"]
        return_book_fine [OF lent_find, of alice "T0 + 24 * DAY"]
        return_book_fine [OF lent_find, of alice "T0 + 25 * DAY - 1"]
  by (auto simp: lent_def loan1_def alice_def librarian_def bob_def dune_def T0_def DAY_def
        return_book_def find_one_def return_fine_def delta_days_def)

subsection \<open>The loan period\<close>



subsection \<open>The overdue sweep\<close>

lemma selection_subset:
  "set (overdue_selection s now) \<subseteq> {r \<in> set (borrows s). status r = Borrowed \<and> due_date r < now}"
  unfolding overdue_selection_def using sel_subset [of 1000 "overdue_query now" "borrows s"]
  by (auto simp: overdue_query_def)

lemma get_overdue_books_sel:
  assumes "u_role cu = ''librarian''" "distinct (map r_id (borrows s))"
  shows "get_overdue_books s cu now =
     Inr (s\<lparr>borrows := map (\<lambda>r. if r \<in> set (overdue_selection s now)
                     then r\<lparr>status := Overdue\<rparr> else r) (borrows s)\<rparr>,
          map (enrich_overdue
                 (s\<lparr>borrows := map (\<lambda>r. if r \<in> set (overdue_selection s now)
                     then r\<lparr>status := Overdue\<rparr> else r) (borrows s)\<rparr>) now)
              (overdue_selection s now))"
  unfolding overdue_selection_def using assms by (rule get_overdue_books_eq)

lemma get_overdue_books_role:
  "get_overdue_books s cu now = Inr p \<Longrightarrow> u_role cu = ''librarian''"
  by (simp add: get_overdue_books_def split: if_splits)

lemma e_borrow_enrich: "map e_borrow (map (enrich_overdue s now) xs) = xs"
  by (induction xs) (simp_all add: enrich_overdue_def Let_def)

text \<open>
  Claim C9. A sweep writes nothing but the status of the loans it fetched. Users and books
  are as before. The report lists exactly the loans fetched: the first thousand, in the
  store's order, of status \<^verbatim>\<open>borrowed\<close> and due date before the current time. The stored
  loans are the old ones in the old order, each fetched loan with its status set to
  \<^verbatim>\<open>overdue\<close> and nothing else changed, every other loan as it was; so no stored fine
  changes, and the fine of the report is computed for the response only. Each loan of the
  report is the record as it was fetched, of status \<^verbatim>\<open>borrowed\<close>, while the stored record
  of that identifier now has the status \<^verbatim>\<open>overdue\<close>.
\<close>

theorem sweep_changes_status_only:
  assumes "distinct (map r_id (borrows s))" "get_overdue_books s cu now = Inr (s', out)"
  shows "users s' = users s \<and> books s' = books s
     \<and> map e_borrow out = overdue_selection s now
     \<and> overdue_selection s now =
         take 1000 (filter (\<lambda>r. status r = Borrowed \<and> due_date r < now) (borrows s))
     \<and> borrows s' = map (\<lambda>r. if r \<in> set (map e_borrow out) then r\<lparr>status := Overdue\<rparr> else r)
                      (borrows s)
     \<and> length (borrows s') = length (borrows s)
     \<and> (\<forall>i<length (borrows s).
           (borrows s ! i \<in> set (map e_borrow out) \<longrightarrow>
              borrows s' ! i = (borrows s ! i)\<lparr>status := Overdue\<rparr>)
           \<and> (borrows s ! i \<notin> set (map e_borrow out) \<longrightarrow> borrows s' ! i = borrows s ! i)
           \<and> fine_amount (borrows s' ! i) = fine_amount (borrows s ! i))
     \<and> (\<forall>e\<in>set out.
           status (e_borrow e) = Borrowed \<and> due_date (e_borrow e) < now
           \<and> e_borrow e \<in> set (borrows s)
           \<and> find_one (\<lambda>r. r_id r = r_id (e_borrow e)) (borrows s') =
               Some ((e_borrow e)\<lparr>status := Overdue\<rparr>)
           \<and> e_overdue_days e = delta_days now (due_date (e_borrow e))
           \<and> e_calculated_fine e = real_of_int (delta_days now (due_date (e_borrow e))) * 1)"
proof -
  let ?sel = "overdue_selection s now"
  let ?h = "\<lambda>r. if r \<in> set ?sel then r\<lparr>status := Overdue\<rparr> else r"
  have role: "u_role cu = ''librarian''"
    using assms(2) by (rule get_overdue_books_role)
  have s': "s' = s\<lparr>borrows := map ?h (borrows s)\<rparr>"
    and out: "out = map (enrich_overdue s' now) ?sel"
    using assms(2) get_overdue_books_sel [OF role assms(1), of now] by auto
  have rep: "map e_borrow out = ?sel"
    unfolding out by (rule e_borrow_enrich)
  have sel: "?sel = take 1000 (filter (\<lambda>r. status r = Borrowed \<and> due_date r < now) (borrows s))"
    by (simp add: overdue_selection_def to_list_def overdue_query_def [abs_def])
  have frame: "users s' = users s \<and> books s' = books s"
    by (simp add: s')
  have bs: "borrows s' = map (\<lambda>r. if r \<in> set (map e_borrow out) then r\<lparr>status := Overdue\<rparr> else r)
                      (borrows s)"
    unfolding rep by (simp add: s')
  have len: "length (borrows s') = length (borrows s)"
    by (simp add: s')
  have each: "\<forall>i<length (borrows s).
           (borrows s ! i \<in> set (map e_borrow out) \<longrightarrow>
              borrows s' ! i = (borrows s ! i)\<lparr>status := Overdue\<rparr>)
           \<and> (borrows s ! i \<notin> set (map e_borrow out) \<longrightarrow> borrows s' ! i = borrows s ! i)
           \<and> fine_amount (borrows s' ! i) = fine_amount (borrows s ! i)"
    unfolding bs by simp
  have ids': "distinct (map r_id (borrows s'))"
  proof -
    have "map r_id (borrows s') = map r_id (borrows s)"
      by (simp add: s' o_def)
    then show ?thesis using assms(1) by simp
  qed
  have entries: "\<forall>e\<in>set out.
           status (e_borrow e) = Borrowed \<and> due_date (e_borrow e) < now
           \<and> e_borrow e \<in> set (borrows s)
           \<and> find_one (\<lambda>r. r_id r = r_id (e_borrow e)) (borrows s') =
               Some ((e_borrow e)\<lparr>status := Overdue\<rparr>)
           \<and> e_overdue_days e = delta_days now (due_date (e_borrow e))
           \<and> e_calculated_fine e = real_of_int (delta_days now (due_date (e_borrow e))) * 1"
  proof
    fix e
    assume "e \<in> set out"
    then obtain r where r: "r \<in> set ?sel" and e: "e = enrich_overdue s' now r"
      by (auto simp: out)
    have eb: "e_borrow e = r" by (simp add: e enrich_overdue_def Let_def)
    have in_s: "r \<in> set (borrows s)" and st: "status r = Borrowed" and late: "due_date r < now"
      using r selection_subset [of s now] by auto
    have "r\<lparr>status := Overdue\<rparr> \<in> set (borrows s')"
      using in_s r by (auto simp: s' image_iff intro!: bexI [of _ r])
    from find_one_distinct [OF ids' this]
    have "find_one (\<lambda>x. r_id x = r_id r) (borrows s') = Some (r\<lparr>status := Overdue\<rparr>)"
      by simp
    moreover have "e_calculated_fine e = real_of_int (delta_days now (due_date r)) * 1"
      and "e_overdue_days e = delta_days now (due_date r)"
      by (simp_all add: e enrich_overdue_def Let_def)
    ultimately show "status (e_borrow e) = Borrowed \<and> due_date (e_borrow e) < now
           \<and> e_borrow e \<in> set (borrows s)
           \<and> find_one (\<lambda>r. r_id r = r_id (e_borrow e)) (borrows s') =
               Some ((e_borrow e)\<lparr>status := Overdue\<rparr>)
           \<and> e_overdue_days e = delta_days now (due_date (e_borrow e))
           \<and> e_calculated_fine e = real_of_int (delta_days now (due_date (e_borrow e))) * 1"
      using eb in_s st late by simp
  qed
  from frame rep sel bs len each entries show ?thesis by blast
qed

lemma lent_distinct: "distinct (map r_id (borrows lent))"
  by (simp add: lent_def)

lemma lent_sweep:
  "get_overdue_books lent librarian (T0 + 20 * DAY) =
     Inr (lent\<lparr>borrows := [loan1\<lparr>status := Overdue\<rparr>]\<rparr>,
          [\<lparr>e_borrow = loan1, e_book_title = ''Dune'', e_book_author = ''Frank Herbert'',
            e_user_name = ''Alice'', e_user_email = ''alice@library.example'',
            e_overdue_days = 6, e_calculated_fine = 6\<rparr>])"
  by (simp add: get_overdue_books_def to_list_def overdue_query_def mark_overdue_def
        enrich_overdue_def find_one_def delta_days_def Let_def
        lent_def loan1_def librarian_def alice_def bob_def dune_def T0_def DAY_def)

lemma relent_distinct: "distinct (map r_id (borrows relent))"
  by (simp add: example_defs)

lemma relent_sweep:
  "get_overdue_books relent librarian (T0 + 40 * DAY) =
     Inr (relent\<lparr>borrows := [loan1_back, loan2\<lparr>status := Overdue\<rparr>]\<rparr>,
          [\<lparr>e_borrow = loan2, e_book_title = ''Dune'', e_book_author = ''Frank Herbert'',
            e_user_name = ''Bob'', e_user_email = ''bob@library.example'',
            e_overdue_days = 11, e_calculated_fine = 11\<rparr>])"
  by (simp add: example_defs eval_defs)

theorem sweep_changes_status_only_witness:
  "distinct (map r_id (borrows relent))
   \<and> get_overdue_books relent librarian (T0 + 40 * DAY) =
       Inr (relent\<lparr>borrows := [loan1_back, loan2\<lparr>status := Overdue\<rparr>]\<rparr>,
            [\<lparr>e_borrow = loan2, e_book_title = ''Dune'', e_book_author = ''Frank Herbert'',
              e_user_name = ''Bob'', e_user_email = ''bob@library.example'',
              e_overdue_days = 11, e_calculated_fine = 11\<rparr>])
   \<and> borrows relent = [loan1_back, loan2]
   \<and> overdue_selection relent (T0 + 40 * DAY) = [loan2]
   \<and> status loan2 = Borrowed \<and> status loan1_back = Returned
   \<and> fine_amount (loan2\<lparr>status := Overdue\<rparr>) = fine_amount loan2
   \<and> find_one (\<lambda>r. r_id r = r_id loan2)
         (borrows (relent\<lparr>borrows := [loan1_back, loan2\<lparr>status := Overdue\<rparr>]\<rparr>))
       = Some (loan2\<lparr>status := Overdue\<rparr>)"
proof -
  from sweep_changes_status_only [OF relent_distinct relent_sweep]
  have sel: "map e_borrow
       [\<lparr>e_borrow = loan2, e_book_title = ''Dune'', e_book_author = ''Frank Herbert'',
         e_user_name = ''Bob'', e_user_email = ''bob@library.example'',
         e_overdue_days = 11, e_calculated_fine = 11\<rparr>] = overdue_selection relent (T0 + 40 * DAY)"
    by blast
  have rest: "borrows relent = [loan1_back, loan2]
     \<and> status loan2 = Borrowed \<and> status loan1_back = Returned
     \<and> fine_amount (loan2\<lparr>status := Overdue\<rparr>) = fine_amount loan2
     \<and> find_one (\<lambda>r. r_id r = r_id loan2)
         (borrows (relent\<lparr>borrows := [loan1_back, loan2\<lparr>status := Overdue\<rparr>]\<rparr>))
       = Some (loan2\<lparr>status := Overdue\<rparr>)"
    by (simp add: example_defs find_one_def)
  from sel have "overdue_selection relent (T0 + 40 * DAY) = [loan2]" by simp
  with relent_distinct relent_sweep rest show ?thesis by blast
qed

lemma selection_all:
  "length (filter (overdue_query now) (borrows s)) \<le> 1000 \<Longrightarrow>
     set (overdue_selection s now) = {r \<in> set (borrows s). status r = Borrowed \<and> due_date r < now}"
  by (auto simp: overdue_selection_def to_list_def overdue_query_def)

lemma sweep_again:
  assumes "u_role cu = ''librarian''"
    and "filter (overdue_query now) (borrows s') = []"
  shows "get_overdue_books s' cu now = Inr (s', [])"
  using assms by (simp add: get_overdue_books_def to_list_def)

text \<open>
  Claim C6, as amended. One sweep fetches at most a thousand loans: called by a librarian on a
  store whose loans have distinct identifiers, it sets to \<^verbatim>\<open>overdue\<close> exactly the first
  thousand loans, in the store's order, of status \<^verbatim>\<open>borrowed\<close> and due date strictly before
  the current time, and reports those. When at most a thousand loans match, these are all of
  them, and the same sweep run again fetches nothing and leaves the store as it is. A loan
  that is already overdue is never fetched and is left as it is.
\<close>

theorem sweep_first_thousand:
  assumes "u_role cu = ''librarian''" "distinct (map r_id (borrows s))"
  shows "\<exists>s' out. get_overdue_books s cu now = Inr (s', out)
     \<and> map e_borrow out = overdue_selection s now
     \<and> overdue_selection s now = take 1000 (filter (\<lambda>r. status r = Borrowed \<and> due_date r < now) (borrows s))
     \<and> borrows s' = map (\<lambda>r. if r \<in> set (overdue_selection s now)
                              then r\<lparr>status := Overdue\<rparr> else r) (borrows s)
     \<and> (length (filter (overdue_query now) (borrows s)) \<le> 1000 \<longrightarrow>
           set (overdue_selection s now) =
             {r \<in> set (borrows s). status r = Borrowed \<and> due_date r < now}
           \<and> get_overdue_books s' cu now = Inr (s', []))
     \<and> (\<forall>r\<in>set (borrows s). status r = Overdue \<longrightarrow>
           r \<notin> set (overdue_selection s now) \<and> r \<in> set (borrows s'))
     \<and> (\<forall>r\<in>set (borrows s'). status r = Overdue \<longrightarrow> (\<forall>t. r \<notin> set (overdue_selection s' t)))"
proof -
  let ?sel = "overdue_selection s now"
  let ?h = "\<lambda>r. if r \<in> set ?sel then r\<lparr>status := Overdue\<rparr> else r"
  define s' where "s' = s\<lparr>borrows := map ?h (borrows s)\<rparr>"
  define out where "out = map (enrich_overdue s' now) ?sel"
  have run: "get_overdue_books s cu now = Inr (s', out)"
    unfolding s'_def out_def using assms by (rule get_overdue_books_sel)
  have rep: "map e_borrow out = ?sel"
    unfolding out_def by (rule e_borrow_enrich)
  have sel: "?sel = take 1000 (filter (\<lambda>r. status r = Borrowed \<and> due_date r < now) (borrows s))"
    by (simp add: overdue_selection_def to_list_def overdue_query_def [abs_def])
  have bs: "borrows s' = map ?h (borrows s)"
    by (simp add: s'_def)
  have few: "set ?sel = {r \<in> set (borrows s). status r = Borrowed \<and> due_date r < now}
           \<and> get_overdue_books s' cu now = Inr (s', [])"
    if le: "length (filter (overdue_query now) (borrows s)) \<le> 1000"
  proof
    show all: "set ?sel = {r \<in> set (borrows s). status r = Borrowed \<and> due_date r < now}"
      using le by (rule selection_all)
    have "filter (overdue_query now) (borrows s') = []"
      unfolding bs filter_empty_conv using all by (auto simp: overdue_query_def)
    with assms(1) show "get_overdue_books s' cu now = Inr (s', [])"
      by (rule sweep_again)
  qed
  have old: "\<forall>r\<in>set (borrows s). status r = Overdue \<longrightarrow> r \<notin> set ?sel \<and> r \<in> set (borrows s')"
  proof (intro ballI impI)
    fix r assume r: "r \<in> set (borrows s)" and st: "status r = Overdue"
    then have "r \<notin> set ?sel" using selection_subset [of s now] by auto
    moreover from this r have "r \<in> set (borrows s')"
      by (auto simp: bs image_iff intro!: bexI [of _ r])
    ultimately show "r \<notin> set ?sel \<and> r \<in> set (borrows s')" by simp
  qed
  have new: "\<forall>r\<in>set (borrows s'). status r = Overdue \<longrightarrow> (\<forall>t. r \<notin> set (overdue_selection s' t))"
  proof (intro ballI impI allI)
    fix r t assume "r \<in> set (borrows s')" and "status r = Overdue"
    then show "r \<notin> set (overdue_selection s' t)"
      using selection_subset [of s' t] by auto
  qed
  from run rep sel bs few old new show ?thesis by blast
qed


lemma librarian_role: "u_role librarian = ''librarian''"
  by (simp add: librarian_def)

theorem sweep_first_thousand_witness:
  "u_role librarian = ''librarian'' \<and> distinct (map r_id (borrows lent))
   \<and> get_overdue_books lent librarian (T0 + 20 * DAY) =
       Inr (lent\<lparr>borrows := [loan1\<lparr>status := Overdue\<rparr>]\<rparr>,
            [\<lparr>e_borrow = loan1, e_book_title = ''Dune'', e_book_author = ''Frank Herbert'',
              e_user_name = ''Alice'', e_user_email = ''alice@library.example'',
              e_overdue_days = 6, e_calculated_fine = 6\<rparr>])
   \<and> overdue_selection lent (T0 + 20 * DAY) = [loan1]
   \<and> length (filter (overdue_query (T0 + 20 * DAY)) (borrows lent)) \<le> 1000
   \<and> get_overdue_books (lent\<lparr>borrows := [loan1\<lparr>status := Overdue\<rparr>]\<rparr>) librarian (T0 + 20 * DAY) =
       Inr (lent\<lparr>borrows := [loan1\<lparr>status := Overdue\<rparr>]\<rparr>, [])
   \<and> loan1\<lparr>status := Overdue\<rparr> \<notin>
       set (overdue_selection (lent\<lparr>borrows := [loan1\<lparr>status := Overdue\<rparr>]\<rparr>) (T0 + 30 * DAY))"
  using sweep_first_thousand [OF librarian_role lent_distinct, of "T0 + 20 * DAY"] lent_sweep
  by (auto simp: overdue_selection_def to_list_def overdue_query_def lent_def loan1_def
        librarian_def T0_def DAY_def)

lemma late_loan_inj: "late_loan m = late_loan n \<longleftrightarrow> m = n"
proof
  assume "late_loan m = late_loan n"
  then have "r_id (late_loan m) = r_id (late_loan n)" by simp
  then have "length (replicate m CHR ''i'') = length (replicate n CHR ''i'')"
    by (simp add: late_loan_def)
  then show "m = n" by simp
qed simp

lemma late_loan_id_inj: "r_id (late_loan m) = r_id (late_loan n) \<longleftrightarrow> m = n"
proof
  assume "r_id (late_loan m) = r_id (late_loan n)"
  then have "length (replicate m CHR ''i'') = length (replicate n CHR ''i'')"
    by (simp add: late_loan_def)
  then show "m = n" by simp
qed simp

lemma crowded_distinct: "distinct (map r_id (borrows crowded))"
  by (simp add: crowded_def distinct_map inj_on_def late_loan_id_inj)

lemma late_loan_query: "overdue_query T0 (late_loan n)"
  by (simp add: overdue_query_def late_loan_def DAY_def)

lemma crowded_selection: "overdue_selection crowded T0 = map late_loan [0..<1000]"
proof -
  have "filter (overdue_query T0) (map late_loan [0..<1001]) = map late_loan [0..<1001]"
    by (simp add: late_loan_query)
  then show ?thesis
    by (simp add: overdue_selection_def to_list_def crowded_def take_map)
qed

lemma crowded_sweep:
  "get_overdue_books crowded librarian T0 =
     Inr (crowded_swept, map (enrich_overdue crowded_swept T0) (map late_loan [0..<1000]))"
proof -
  have "[0..<1001] = [0..<Suc 1000]"
    by simp
  also have "\<dots> = [0..<1000] @ [1000]"
    by (rule upt_Suc_append) simp
  finally have split: "[0..<1001] = [0..<1000] @ [1000]" .
  have "map (\<lambda>r. if r \<in> set (map late_loan [0..<1000]) then r\<lparr>status := Overdue\<rparr> else r)
          (map late_loan [0..<1001]) =
        map (\<lambda>n. (late_loan n)\<lparr>status := Overdue\<rparr>) [0..<1000] @ [late_loan 1000]"
    unfolding split by (auto simp: late_loan_inj)
  then have "crowded\<lparr>borrows := map (\<lambda>r. if r \<in> set (overdue_selection crowded T0)
                     then r\<lparr>status := Overdue\<rparr> else r) (borrows crowded)\<rparr> = crowded_swept"
    by (simp add: crowded_selection) (simp add: crowded_def crowded_swept_def)
  then show ?thesis
    using get_overdue_books_sel [OF librarian_role crowded_distinct, of T0]
    by (simp add: crowded_selection)
qed

text \<open>
  The claim as stated fails where more than a thousand loans are late: of the 1001 late loans
  of \<open>crowded\<close> the sweep transitions and reports the first thousand, and the last one stays
  \<^verbatim>\<open>borrowed\<close>.
\<close>

theorem sweep_leaves_late_loan_counterexample:
  "get_overdue_books crowded librarian T0 =
     Inr (crowded_swept, map (enrich_overdue crowded_swept T0) (map late_loan [0..<1000]))
   \<and> late_loan 1000 \<in> set (borrows crowded)
   \<and> status (late_loan 1000) = Borrowed \<and> due_date (late_loan 1000) < T0
   \<and> late_loan 1000 \<in> set (borrows crowded_swept)
   \<and> late_loan 1000 \<notin> set (map late_loan [0..<1000])"
proof -
  have a: "late_loan 1000 \<in> set (borrows crowded)"
    by (simp add: crowded_def)
  have b: "status (late_loan 1000) = Borrowed \<and> due_date (late_loan 1000) < T0"
    by (simp add: late_loan_def DAY_def)
  have c: "late_loan 1000 \<in> set (borrows crowded_swept)"
    by (simp add: crowded_swept_def)
  have d: "late_loan 1000 \<notin> set (map late_loan [0..<1000])"
    by (auto simp: late_loan_inj)
  from crowded_sweep a b c d show ?thesis by blast
qed

subsection \<open>Returned loans\<close>

lemma return_book_borrows:
  assumes "return_book s cu bid now = Inr (s', fine)"
  shows "\<exists>x. find_one (\<lambda>r. r_id r = bid) (borrows s) = Some x \<and> status x \<noteq> Returned
           \<and> borrows s' = update_one (\<lambda>r. r_id r = bid)
                (\<lambda>r. r\<lparr>returned_at := Some now, status := Returned, fine_amount := fine\<rparr>) (borrows s)"
  using assms by (auto simp: return_book_def Let_def split: option.splits if_splits)

lemma borrow_book_borrows:
  assumes "borrow_book s cu req now stamp new_id = Inr (s', r)"
  shows "borrows s' = borrows s @ [r] \<and> r_id r = new_id \<and> status r = Borrowed
           \<and> user_id r = u_id cu \<and> book_id r = req_book_id req
           \<and> find_one (\<lambda>r. user_id r = u_id cu \<and> book_id r = req_book_id req
                            \<and> status r = Borrowed) (borrows s) = None"
  using assms
  by (auto simp: borrow_book_def Let_def split: option.splits if_splits sum.splits)

lemma catalogue_borrows:
  "create_book s cu d i t = Inr (s', b) \<Longrightarrow> borrows s' = borrows s"
  "update_book s cu bid u = Inr (s', b) \<Longrightarrow> borrows s' = borrows s"
  "delete_book s cu bid = Inr s' \<Longrightarrow> borrows s' = borrows s"
  by (auto simp: create_book_def update_book_def delete_book_def Let_def
        split: if_splits option.splits)

lemma step_keeps_returned:
  assumes "step s s'" "distinct (map r_id (borrows s))"
  shows "distinct (map r_id (borrows s'))
       \<and> (\<forall>r\<in>set (borrows s). status r = Returned \<longrightarrow> r \<in> set (borrows s'))"
  using assms
proof (cases rule: step.cases)
  case (step_register u)
  then show ?thesis using assms(2) by simp
next
  case (step_create cu book_data new_id now b)
  then show ?thesis using assms(2) catalogue_borrows(1) by metis
next
  case (step_update cu bid book_data b)
  then show ?thesis using assms(2) catalogue_borrows(2) by metis
next
  case (step_delete cu bid)
  then show ?thesis using assms(2) catalogue_borrows(3) by metis
next
  case (step_borrow cu borrow_data now stamp new_id r)
  from borrow_book_borrows [OF step_borrow(1)]
  have "borrows s' = borrows s @ [r]" and "r_id r = new_id" by simp_all
  then show ?thesis using assms(2) step_borrow(2) by auto
next
  case (step_return cu bid now fine)
  let ?f = "\<lambda>r. r\<lparr>returned_at := Some now, status := Returned, fine_amount := fine\<rparr>"
  from return_book_borrows [OF step_return]
  obtain x where x: "find_one (\<lambda>r. r_id r = bid) (borrows s) = Some x" "status x \<noteq> Returned"
    and bs: "borrows s' = update_one (\<lambda>r. r_id r = bid) ?f (borrows s)"
    by blast
  have ids: "map r_id (borrows s') = map r_id (borrows s)"
    unfolding bs by (rule map_update_one) simp
  have bs': "borrows s' = map (\<lambda>r. if r_id r = bid then ?f r else r) (borrows s)"
    unfolding bs using assms(2) by (rule update_one_distinct)
  have "r \<in> set (borrows s')" if r: "r \<in> set (borrows s)" "status r = Returned" for r
  proof -
    have "r_id r \<noteq> bid"
    proof
      assume "r_id r = bid"
      with find_one_distinct [OF assms(2) r(1)] x(1) have "x = r" by simp
      with x(2) r(2) show False by simp
    qed
    then show ?thesis using r(1) by (auto simp: bs' image_iff intro!: bexI [of _ r])
  qed
  then show ?thesis using ids assms(2) by simp
next
  case (step_sweep cu now out)
  have role: "u_role cu = ''librarian''"
    using step_sweep by (rule get_overdue_books_role)
  have bs: "borrows s' = map (\<lambda>r. if r \<in> set (overdue_selection s now)
                     then r\<lparr>status := Overdue\<rparr> else r) (borrows s)"
    using step_sweep get_overdue_books_sel [OF role assms(2), of now] by auto
  have ids: "map r_id (borrows s') = map r_id (borrows s)"
    by (simp add: bs o_def)
  have "r \<in> set (borrows s')" if r: "r \<in> set (borrows s)" "status r = Returned" for r
  proof -
    have "r \<notin> set (overdue_selection s now)"
      using selection_subset [of s now] r(2) by auto
    then show ?thesis using r(1) by (auto simp: bs image_iff intro!: bexI [of _ r])
  qed
  then show ?thesis using ids assms(2) by simp
qed

lemma steps_keep_returned:
  assumes "step\<^sup>*\<^sup>* s s'" "distinct (map r_id (borrows s))" "r \<in> set (borrows s)" "status r = Returned"
  shows "distinct (map r_id (borrows s')) \<and> r \<in> set (borrows s')"
  using assms
proof (induction rule: rtranclp_induct)
  case base
  then show ?case by simp
next
  case (step y z)
  then have "distinct (map r_id (borrows y))" and "r \<in> set (borrows y)" by simp_all
  with step_keeps_returned [OF step.hyps(2)] step.prems(3) show ?case by blast
qed

text \<open>
  Claim C5. A returned loan is final. In a store whose loans have distinct identifiers, a
  return call on a loan of status \<^verbatim>\<open>returned\<close> fails (with \<^verbatim>\<open>AlreadyReturned\<close> for the
  borrower or a librarian, with the authorisation error for anybody else) and so writes
  nothing; the sweep does not fetch the loan; and after any sequence of successful calls the
  store holds the very same record under its identifier: status, fine and return time are
  unchanged.
\<close>

theorem returned_is_terminal:
  assumes "distinct (map r_id (borrows s))" "r \<in> set (borrows s)" "status r = Returned"
  shows "return_book s cu (r_id r) now =
           Inl (if user_id r \<noteq> u_id cu \<and> u_role cu \<noteq> ''librarian'' then Forbidden
                else AlreadyReturned)
     \<and> r \<notin> set (overdue_selection s now)
     \<and> (\<forall>s'. step\<^sup>*\<^sup>* s s' \<longrightarrow> find_one (\<lambda>x. r_id x = r_id r) (borrows s') = Some r)"
proof (intro conjI allI impI)
  have "find_one (\<lambda>x. r_id x = r_id r) (borrows s) = Some r"
    using assms(1,2) by (rule find_one_distinct)
  then show "return_book s cu (r_id r) now =
           Inl (if user_id r \<noteq> u_id cu \<and> u_role cu \<noteq> ''librarian'' then Forbidden
                else AlreadyReturned)"
    using assms(3) by (simp add: return_book_def)
next
  show "r \<notin> set (overdue_selection s now)"
    using selection_subset [of s now] assms(3) by auto
next
  fix s' assume "step\<^sup>*\<^sup>* s s'"
  from steps_keep_returned [OF this assms]
  show "find_one (\<lambda>x. r_id x = r_id r) (borrows s') = Some r"
    by (simp add: find_one_distinct)
qed

lemma back_borrow:
  "borrow_book handed_back bob \<lparr>req_book_id = ''b1'', borrow_days = 14\<rparr> (T0 + 15 * DAY) (T0 + 15 * DAY + 1) ''l2''
     = Inr (relent, loan2)"
  by (simp add: example_defs eval_defs)

lemma back_step: "step\<^sup>*\<^sup>* handed_back relent"
proof -
  have "''l2'' \<notin> r_id ` set (borrows handed_back)"
    by (simp add: example_defs)
  with back_borrow have "step handed_back relent" by (rule step_borrow)
  then show ?thesis by (rule r_into_rtranclp)
qed

theorem returned_is_terminal_witness:
  "distinct (map r_id (borrows handed_back)) \<and> loan1_back \<in> set (borrows handed_back)
   \<and> status loan1_back = Returned
   \<and> return_book handed_back alice ''l1'' (T0 + 16 * DAY) = Inl AlreadyReturned
   \<and> return_book handed_back bob ''l1'' (T0 + 16 * DAY) = Inl Forbidden
   \<and> loan1_back \<notin> set (overdue_selection handed_back (T0 + 16 * DAY))
   \<and> step\<^sup>*\<^sup>* handed_back relent
   \<and> find_one (\<lambda>x. r_id x = ''l1'') (borrows relent) = Some loan1_back"
proof -
  have d: "distinct (map r_id (borrows handed_back))" and m: "loan1_back \<in> set (borrows handed_back)"
    and st: "status loan1_back = Returned"
    by (simp_all add: example_defs)
  have id: "r_id loan1_back = ''l1''"
    by (simp add: example_defs)
  have who: "user_id loan1_back = u_id alice" "user_id loan1_back \<noteq> u_id bob"
    "u_role bob \<noteq> ''librarian''" "u_id alice \<noteq> u_id bob"
    by (simp_all add: example_defs)
  show ?thesis
    using returned_is_terminal [OF d m st, of alice "T0 + 16 * DAY"]
          returned_is_terminal [OF d m st, of bob "T0 + 16 * DAY"]
          back_step d m st
    by (simp add: id who)
qed

lemma steps_distinct_ids:
  "step\<^sup>*\<^sup>* s s' \<Longrightarrow> distinct (map r_id (borrows s)) \<Longrightarrow> distinct (map r_id (borrows s'))"
  by (induction rule: rtranclp_induct) (auto dest: step_keeps_returned)

subsection \<open>Borrowing a book twice\<close>

lemma filter_update_one_subset:
  "(\<And>x. \<not> Q (f x)) \<Longrightarrow> set (filter Q (update_one P f xs)) \<subseteq> set (filter Q xs)"
  by (induction xs) auto

lemma distinct_filter_update_one:
  assumes "\<And>x. \<not> Q (f x)" "distinct (map g (filter Q xs))"
  shows "distinct (map g (filter Q (update_one P f xs)))"
  using assms(2)
proof (induction xs)
  case Nil
  then show ?case by simp
next
  case (Cons x xs)
  show ?case
  proof (cases "P x")
    case True
    with Cons.prems assms(1) show ?thesis by (auto split: if_splits)
  next
    case False
    have "g ` set (filter Q (update_one P f xs)) \<subseteq> g ` set (filter Q xs)"
      using filter_update_one_subset [of Q f P xs] assms(1) by (intro image_mono) simp
    with False Cons show ?thesis by (auto split: if_splits)
  qed
qed

lemma distinct_filter_fold_mark:
  "distinct (map g (filter (\<lambda>r. status r = Borrowed) bs)) \<Longrightarrow>
     distinct (map g (filter (\<lambda>r. status r = Borrowed) (fold mark_overdue sel bs)))"
proof (induction sel arbitrary: bs)
  case Nil
  then show ?case by simp
next
  case (Cons x sel)
  have "distinct (map g (filter (\<lambda>r. status r = Borrowed) (mark_overdue x bs)))"
    unfolding mark_overdue_def using Cons.prems by (intro distinct_filter_update_one) simp_all
  then show ?case using Cons.IH by simp
qed

lemma step_one_borrowed:
  assumes "step s s'" "one_borrowed_per_pair s"
  shows "one_borrowed_per_pair s'"
  using assms(1)
proof (cases rule: step.cases)
  case (step_register u)
  then show ?thesis using assms(2) by (simp add: one_borrowed_per_pair_def)
next
  case (step_create cu book_data new_id now b)
  then show ?thesis using assms(2) catalogue_borrows(1) by (metis one_borrowed_per_pair_def)
next
  case (step_update cu bid book_data b)
  then show ?thesis using assms(2) catalogue_borrows(2) by (metis one_borrowed_per_pair_def)
next
  case (step_delete cu bid)
  then show ?thesis using assms(2) catalogue_borrows(3) by (metis one_borrowed_per_pair_def)
next
  case (step_borrow cu borrow_data now stamp new_id r)
  from borrow_book_borrows [OF step_borrow(1)]
  have bs: "borrows s' = borrows s @ [r]" and r: "status r = Borrowed" "user_id r = u_id cu"
       "book_id r = req_book_id borrow_data"
    and none: "find_one (\<lambda>r. user_id r = u_id cu \<and> book_id r = req_book_id borrow_data
                            \<and> status r = Borrowed) (borrows s) = None"
    by simp_all
  from none have "\<forall>x\<in>set (borrows s). \<not> (user_id x = u_id cu \<and> book_id x = req_book_id borrow_data
                            \<and> status x = Borrowed)"
    by (simp add: find_one_None_iff)
  then have "(user_id r, book_id r) \<notin>
      (\<lambda>r. (user_id r, book_id r)) ` set (filter (\<lambda>r. status r = Borrowed) (borrows s))"
    using r by auto
  then show ?thesis using assms(2) r(1) by (simp add: one_borrowed_per_pair_def bs)
next
  case (step_return cu bid now fine)
  from return_book_borrows [OF step_return]
  have bs: "borrows s' = update_one (\<lambda>r. r_id r = bid)
              (\<lambda>r. r\<lparr>returned_at := Some now, status := Returned, fine_amount := fine\<rparr>) (borrows s)"
    by blast
  show ?thesis
    unfolding one_borrowed_per_pair_def bs using assms(2)
    by (intro distinct_filter_update_one) (simp_all add: one_borrowed_per_pair_def)
next
  case (step_sweep cu now out)
  then have bs: "borrows s' = fold mark_overdue (to_list 1000 (filter (overdue_query now) (borrows s))) (borrows s)"
    by (auto simp: get_overdue_books_def Let_def split: if_splits)
  show ?thesis
    unfolding one_borrowed_per_pair_def bs using assms(2)
    by (intro distinct_filter_fold_mark) (simp add: one_borrowed_per_pair_def)
qed

lemma steps_one_borrowed:
  "step\<^sup>*\<^sup>* s s' \<Longrightarrow> one_borrowed_per_pair s \<Longrightarrow> one_borrowed_per_pair s'"
  by (induction rule: rtranclp_induct) (auto intro: step_one_borrowed)

lemma borrow_book_held:
  assumes "\<exists>r\<in>set (borrows s). user_id r = u_id cu \<and> book_id r = req_book_id req
              \<and> status r = Borrowed"
  shows "borrow_book s cu req now stamp new_id =
           Inl (case find_one (\<lambda>b. b_id b = req_book_id req) (books s) of
                  None \<Rightarrow> BookNotFound
                | Some book \<Rightarrow>
                    if available_copies book \<le> 0 then BookNotAvailable else AlreadyBorrowed)"
proof -
  have "find_one (\<lambda>r. user_id r = u_id cu \<and> book_id r = req_book_id req
                         \<and> status r = Borrowed) (borrows s) \<noteq> None"
    using assms by (auto simp: find_one_None_iff)
  then show ?thesis
    by (auto simp: borrow_book_def split: option.splits)
qed

text \<open>
  Claim C2, as amended. The availability of the book is checked before the user's loans. A
  borrow call by a user who holds a loan of status \<^verbatim>\<open>borrowed\<close> on the book fails and writes
  nothing: with \<^verbatim>\<open>AlreadyBorrowed\<close> when the book exists and has a copy available, with the
  error of the earlier check when the book is missing or has no copy left. Consequently, in
  every store reached from one without loans, no user holds two loans of status
  \<^verbatim>\<open>borrowed\<close> on one book.
\<close>

theorem borrow_book_rejects_second_borrow:
  assumes "step\<^sup>*\<^sup>* s0 s" "borrows s0 = []"
  shows "one_borrowed_per_pair s
     \<and> ((\<exists>r\<in>set (borrows s). user_id r = u_id cu \<and> book_id r = req_book_id req
              \<and> status r = Borrowed) \<longrightarrow>
        borrow_book s cu req now stamp new_id =
           Inl (case find_one (\<lambda>b. b_id b = req_book_id req) (books s) of
                  None \<Rightarrow> BookNotFound
                | Some book \<Rightarrow>
                    if available_copies book \<le> 0 then BookNotAvailable else AlreadyBorrowed))"
proof
  have "one_borrowed_per_pair s0"
    using assms(2) by (simp add: one_borrowed_per_pair_def)
  with assms(1) show "one_borrowed_per_pair s" by (rule steps_one_borrowed)
next
  show "(\<exists>r\<in>set (borrows s). user_id r = u_id cu \<and> book_id r = req_book_id req
              \<and> status r = Borrowed) \<longrightarrow>
        borrow_book s cu req now stamp new_id =
           Inl (case find_one (\<lambda>b. b_id b = req_book_id req) (books s) of
                  None \<Rightarrow> BookNotFound
                | Some book \<Rightarrow>
                    if available_copies book \<le> 0 then BookNotAvailable else AlreadyBorrowed)"
    using borrow_book_held by blast
qed

lemma stocked_borrow:
  "borrow_book stocked alice (parse_BorrowRequest ''b1'' None) T0 (T0 + 1) ''l1''
     = Inr (stocked_lent, loan1)"
  by (simp add: example_defs eval_defs parse_BorrowRequest_def)

lemma stocked_step: "step\<^sup>*\<^sup>* stocked stocked_lent"
proof -
  have "''l1'' \<notin> r_id ` set (borrows stocked)"
    by (simp add: example_defs)
  with stocked_borrow have "step stocked stocked_lent" by (rule step_borrow)
  then show ?thesis by (rule r_into_rtranclp)
qed

theorem borrow_book_rejects_second_borrow_witness:
  "step\<^sup>*\<^sup>* stocked stocked_lent \<and> borrows stocked = []
   \<and> one_borrowed_per_pair stocked_lent
   \<and> loan1 \<in> set (borrows stocked_lent) \<and> user_id loan1 = u_id alice
   \<and> book_id loan1 = ''b1'' \<and> status loan1 = Borrowed
   \<and> borrow_book stocked_lent alice \<lparr>req_book_id = ''b1'', borrow_days = 7\<rparr>
        (T0 + DAY) (T0 + DAY + 1) ''l3'' = Inl AlreadyBorrowed"
proof -
  have e: "borrows stocked = []"
    by (simp add: example_defs)
  have held: "loan1 \<in> set (borrows stocked_lent) \<and> user_id loan1 = u_id alice
   \<and> book_id loan1 = ''b1'' \<and> status loan1 = Borrowed"
    by (simp add: example_defs)
  then have ex: "\<exists>r\<in>set (borrows stocked_lent). user_id r = u_id alice
       \<and> book_id r = req_book_id \<lparr>req_book_id = ''b1'', borrow_days = 7\<rparr> \<and> status r = Borrowed"
    by (intro bexI [of _ loan1]) simp_all
  have bk: "find_one (\<lambda>b. b_id b = ''b1'') (books stocked_lent)
              = Some (dune\<lparr>total_copies := 2, available_copies := 1\<rparr>)"
    by (simp add: example_defs find_one_def)
  show ?thesis
    using borrow_book_rejects_second_borrow [OF stocked_step e, of alice
            "\<lparr>req_book_id = ''b1'', borrow_days = 7\<rparr>" "T0 + DAY" "T0 + DAY + 1" "''l3''"]
          stocked_step e held ex
    by (simp add: bk)
qed

text \<open>
  The claim as stated fails where the user holds the last copy: Alice's second call on the
  book she has borrowed is refused because no copy is available, not with
  \<^verbatim>\<open>AlreadyBorrowed\<close>.
\<close>

theorem borrow_book_exhausted_counterexample:
  "loan1 \<in> set (borrows lent) \<and> user_id loan1 = u_id alice \<and> book_id loan1 = ''b1''
   \<and> active loan1
   \<and> borrow_book lent alice \<lparr>req_book_id = ''b1'', borrow_days = 7\<rparr>
        (T0 + DAY) (T0 + DAY + 1) ''l3'' = Inl BookNotAvailable
   \<and> BookNotAvailable \<noteq> AlreadyBorrowed"
  by (simp add: example_defs eval_defs active_def BookNotAvailable_def AlreadyBorrowed_def)

text \<open>
  The query of lines 319-323 asks for the status \<^verbatim>\<open>borrowed\<close> only. Once a sweep has
  marked Alice's loan overdue, her next call on the same book passes the check, and she holds
  two active loans on it.
\<close>

lemma borrow_book_overdue_unchecked:
  "loan1\<lparr>status := Overdue\<rparr> \<in> set (borrows stocked_late)
   \<and> active (loan1\<lparr>status := Overdue\<rparr>)
   \<and> borrow_book stocked_late alice \<lparr>req_book_id = ''b1'', borrow_days = 14\<rparr>
        (T0 + 21 * DAY) (T0 + 21 * DAY + 1) ''l3'' =
       Inr (\<lparr>users = [librarian, alice\<lparr>current_borrowings := [''l1'', ''l3'']\<rparr>, bob],
             books = [dune\<lparr>total_copies := 2, available_copies := 0\<rparr>],
             borrows = [loan1\<lparr>status := Overdue\<rparr>, loan3]\<rparr>, loan3)
   \<and> \<not> one_active_per_pair
         \<lparr>users = [librarian, alice\<lparr>current_borrowings := [''l1'', ''l3'']\<rparr>, bob],
          books = [dune\<lparr>total_copies := 2, available_copies := 0\<rparr>],
          borrows = [loan1\<lparr>status := Overdue\<rparr>, loan3]\<rparr>"
  by (simp add: example_defs eval_defs active_def one_active_per_pair_def)

subsection \<open>Recommendations\<close>

lemma fold_collect_profile:
  "fold collect_profile bs p = (fst p \<union> genre ` set bs, snd p \<union> \<Union> (set ` tags ` set bs))"
  by (induction bs arbitrary: p) (auto simp: collect_profile_def)

lemma fst_score_book: "fst (score_book set_order ug ut b) = spec_score ug ut b"
  by (simp add: score_book_def spec_score_def Let_def Int_commute)

lemma similarity_score_recommendation_of:
  "similarity_score (recommendation_of set_order ug ut b) = spec_score ug ut b"
  by (simp add: recommendation_of_def fst_score_book)

lemma fold_recommend_step:
  "fold (recommend_step set_order H ug ut) bs acc =
     acc @ map (recommendation_of set_order ug ut)
             (filter (\<lambda>b. b_id b \<notin> set H \<and> 0 < spec_score ug ut b) bs)"
proof (induction bs arbitrary: acc)
  case Nil
  then show ?case by simp
next
  case (Cons b bs)
  have "recommend_step set_order H ug ut b acc =
          (if b_id b \<notin> set H \<and> 0 < spec_score ug ut b
           then acc @ [recommendation_of set_order ug ut b] else acc)"
    using fst_score_book [of set_order ug ut b]
    by (auto simp: recommend_step_def recommendation_of_def split: prod.splits)
  then show ?case by (simp add: Cons.IH)
qed

lemma get_book_recommendations_history:
  assumes "find_one (\<lambda>u. u_id u = uid) (users s) = Some user" "reading_history user \<noteq> []"
  shows "get_book_recommendations set_order s uid limit =
     Inr (slice_to limit (sort_key (\<lambda>r. - similarity_score r)
            (map (recommendation_of set_order (profile_genres s user) (profile_tags s user))
               (candidates s user))))"
  using assms
  by (simp add: get_book_recommendations_def Let_def to_list_def fold_collect_profile
        fold_recommend_step candidates_def profile_genres_def profile_tags_def read_books_def)

lemma slice_to_nonneg: "0 \<le> limit \<Longrightarrow> slice_to limit xs = take (nat limit) xs"
  by (simp add: slice_to_def)

lemma sort_desc_stable:
  "filter (\<lambda>r. similarity_score r = k) (sort_key (\<lambda>r. - similarity_score r) xs) =
   filter (\<lambda>r. similarity_score r = k) xs"
proof -
  have "filter (\<lambda>r. - similarity_score r = - k) (sort_key (\<lambda>r. - similarity_score r) xs) =
        filter (\<lambda>r. - similarity_score r = - k) xs"
    by (rule sort_key_stable)
  then show ?thesis by simp
qed

lemma sort_desc_sorted:
  "sorted_wrt (\<lambda>a b. similarity_score b \<le> similarity_score a)
     (sort_key (\<lambda>r. - similarity_score r) xs)"
proof -
  have "sorted (map (\<lambda>r. - similarity_score r) (sort_key (\<lambda>r. - similarity_score r) xs))"
    by (rule sorted_sort_key)
  then show ?thesis by (simp add: sorted_map)
qed

lemmas room_defs =
  reading_room_def vast_def carol_def dana_def alice_def librarian_def
  dune_def emma_def foundation_def hobbit_def solaris_def ubik_def abc_order_def

lemma carol_profile:
  "find_one (\<lambda>u. u_id u = ''u3'') (users reading_room) = Some carol"
  "read_books reading_room carol = [dune]"
  "profile_genres reading_room carol = {''Sci-Fi''}"
  "profile_tags reading_room carol = {''a'', ''b''}"
  by (auto simp: room_defs find_one_def read_books_def profile_genres_def profile_tags_def)

lemma carol_scores:
  "spec_score {''Sci-Fi''} {''a'', ''b''} emma = 0"
  "spec_score {''Sci-Fi''} {''a'', ''b''} foundation = 0.7"
  "spec_score {''Sci-Fi''} {''a'', ''b''} hobbit = 0.2"
  "spec_score {''Sci-Fi''} {''a'', ''b''} solaris = 0.7"
  "spec_score {''Sci-Fi''} {''a'', ''b''} ubik = 0.9"
  by (simp_all add: spec_score_def room_defs)

lemma carol_candidates: "candidates reading_room carol = [foundation, hobbit, solaris, ubik]"
  unfolding candidates_def carol_profile
  by (simp add: carol_scores reading_room_def) (simp add: room_defs)

lemma carol_recommendations:
  "get_book_recommendations abc_order reading_room ''u3'' 3 =
     Inr [\<lparr>rec_book_id = ''b6'', rec_title = ''Ubik'', rec_author = ''Philip K. Dick'',
           similarity_score = 0.9, reason = ''Similar genre: Sci-Fi; Common tags: a, b''\<rparr>,
          \<lparr>rec_book_id = ''b3'', rec_title = ''Foundation'', rec_author = ''Isaac Asimov'',
           similarity_score = 0.7, reason = ''Similar genre: Sci-Fi; Common tags: a''\<rparr>,
          \<lparr>rec_book_id = ''b5'', rec_title = ''Solaris'', rec_author = ''Stanislaw Lem'',
           similarity_score = 0.7, reason = ''Similar genre: Sci-Fi; Common tags: b''\<rparr>]"
proof -
  have h: "reading_history carol \<noteq> []" by (simp add: carol_def)
  have r: "map (recommendation_of abc_order {''Sci-Fi''} {''a'', ''b''}) [foundation, hobbit, solaris, ubik]
     = [\<lparr>rec_book_id = ''b3'', rec_title = ''Foundation'', rec_author = ''Isaac Asimov'',
           similarity_score = 0.7, reason = ''Similar genre: Sci-Fi; Common tags: a''\<rparr>,
        \<lparr>rec_book_id = ''b4'', rec_title = ''The Hobbit'', rec_author = ''J. R. R. Tolkien'',
           similarity_score = 0.2, reason = ''Common tags: b''\<rparr>,
        \<lparr>rec_book_id = ''b5'', rec_title = ''Solaris'', rec_author = ''Stanislaw Lem'',
           similarity_score = 0.7, reason = ''Similar genre: Sci-Fi; Common tags: b''\<rparr>,
        \<lparr>rec_book_id = ''b6'', rec_title = ''Ubik'', rec_author = ''Philip K. Dick'',
           similarity_score = 0.9, reason = ''Similar genre: Sci-Fi; Common tags: a, b''\<rparr>]"
    by (simp add: recommendation_of_def score_book_def room_defs Let_def)
  show ?thesis
    unfolding get_book_recommendations_history [OF carol_profile(1) h] carol_profile carol_candidates r
    by (simp add: slice_to_def)
qed

text \<open>
  Claim C7, as amended. For a user with a non-empty reading history \<open>H\<close>, the endpoint reads
  at most a thousand of the books of \<open>H\<close> for the user's genres and tags and at most the first
  thousand books of the catalogue. Every one of those catalogue books that is not in \<open>H\<close> and
  scores above zero, the score being \<open>0.5\<close> for a genre of the user's plus \<open>0.2\<close> for each
  tag shared with the user's, is recommended with that score; the recommendations are sorted
  by descending score, equal scores staying in catalogue order, and cut with the slice
  \<^verbatim>\<open>[:limit]\<close>, which for a limit that is not negative keeps the first \<open>limit\<close> entries. In a
  catalogue of at most a thousand books these are all the books of \<open>H\<close> and of the catalogue.
\<close>

theorem recommendations_with_history:
  assumes "find_one (\<lambda>u. u_id u = uid) (users s) = Some user" "reading_history user \<noteq> []"
  shows "\<exists>scored recs.
       get_book_recommendations set_order s uid limit = Inr (slice_to limit recs)
     \<and> map rec_book_id scored = map b_id (candidates s user)
     \<and> map similarity_score scored =
         map (spec_score (profile_genres s user) (profile_tags s user)) (candidates s user)
     \<and> candidates s user =
         filter (\<lambda>b. b_id b \<notin> set (reading_history user)
                     \<and> 0 < spec_score (profile_genres s user) (profile_tags s user) b)
           (take 1000 (books s))
     \<and> recs = sort_key (\<lambda>r. - similarity_score r) scored
     \<and> sorted_wrt (\<lambda>a b. similarity_score b \<le> similarity_score a) recs
     \<and> (\<forall>k. filter (\<lambda>r. similarity_score r = k) recs = filter (\<lambda>r. similarity_score r = k) scored)
     \<and> (0 \<le> limit \<longrightarrow> slice_to limit recs = take (nat limit) recs)
     \<and> (length (books s) \<le> 1000 \<longrightarrow>
          profile_genres s user = genre ` {b \<in> set (books s). b_id b \<in> set (reading_history user)}
          \<and> profile_tags s user =
              \<Union> (set ` tags ` {b \<in> set (books s). b_id b \<in> set (reading_history user)})
          \<and> set (candidates s user) =
              {b \<in> set (books s). b_id b \<notin> set (reading_history user)
                 \<and> 0 < spec_score (profile_genres s user) (profile_tags s user) b})"
proof -
  let ?ug = "profile_genres s user" and ?ut = "profile_tags s user"
  define scored where "scored = map (recommendation_of set_order ?ug ?ut) (candidates s user)"
  define recs where "recs = sort_key (\<lambda>r. - similarity_score r) scored"
  have run: "get_book_recommendations set_order s uid limit = Inr (slice_to limit recs)"
    unfolding recs_def scored_def using assms by (rule get_book_recommendations_history)
  have ids: "map rec_book_id scored = map b_id (candidates s user)"
    by (simp add: scored_def recommendation_of_def)
  have scores: "map similarity_score scored = map (spec_score ?ug ?ut) (candidates s user)"
    by (simp add: scored_def similarity_score_recommendation_of)
  have srt: "sorted_wrt (\<lambda>a b. similarity_score b \<le> similarity_score a) recs"
    unfolding recs_def by (rule sort_desc_sorted)
  have stable: "\<forall>k. filter (\<lambda>r. similarity_score r = k) recs = filter (\<lambda>r. similarity_score r = k) scored"
    unfolding recs_def by (simp add: sort_desc_stable)
  have cut: "0 \<le> limit \<longrightarrow> slice_to limit recs = take (nat limit) recs"
    by (simp add: slice_to_nonneg)
  have small: "profile_genres s user = genre ` {b \<in> set (books s). b_id b \<in> set (reading_history user)}
          \<and> profile_tags s user =
              \<Union> (set ` tags ` {b \<in> set (books s). b_id b \<in> set (reading_history user)})
          \<and> set (candidates s user) =
              {b \<in> set (books s). b_id b \<notin> set (reading_history user)
                 \<and> 0 < spec_score (profile_genres s user) (profile_tags s user) b}"
    if le: "length (books s) \<le> 1000"
  proof -
    have "length (filter (\<lambda>b. b_id b \<in> set (reading_history user)) (books s)) \<le> 1000"
      using le length_filter_le [of "\<lambda>b. b_id b \<in> set (reading_history user)" "books s"] by linarith
    then have rb: "set (read_books s user) = {b \<in> set (books s). b_id b \<in> set (reading_history user)}"
      by (simp add: read_books_def)
    show ?thesis
      using le by (simp add: profile_genres_def profile_tags_def rb candidates_def)
  qed
  from run ids scores srt stable cut small show ?thesis
    unfolding recs_def by (intro exI [of _ scored] exI [of _ recs]) (simp add: candidates_def recs_def)
qed

lemma carol_history: "reading_history carol \<noteq> []"
  by (simp add: carol_def)

theorem recommendations_with_history_witness:
  "find_one (\<lambda>u. u_id u = ''u3'') (users reading_room) = Some carol
   \<and> reading_history carol \<noteq> []
   \<and> candidates reading_room carol = [foundation, hobbit, solaris, ubik]
   \<and> spec_score (profile_genres reading_room carol) (profile_tags reading_room carol) solaris = 0.7
   \<and> get_book_recommendations abc_order reading_room ''u3'' 3 =
     Inr [\<lparr>rec_book_id = ''b6'', rec_title = ''Ubik'', rec_author = ''Philip K. Dick'',
           similarity_score = 0.9, reason = ''Similar genre: Sci-Fi; Common tags: a, b''\<rparr>,
          \<lparr>rec_book_id = ''b3'', rec_title = ''Foundation'', rec_author = ''Isaac Asimov'',
           similarity_score = 0.7, reason = ''Similar genre: Sci-Fi; Common tags: a''\<rparr>,
          \<lparr>rec_book_id = ''b5'', rec_title = ''Solaris'', rec_author = ''Stanislaw Lem'',
           similarity_score = 0.7, reason = ''Similar genre: Sci-Fi; Common tags: b''\<rparr>]"
  using recommendations_with_history [OF carol_profile(1) carol_history, of abc_order 3]
        carol_profile(1) carol_history carol_candidates carol_recommendations
  by (simp add: carol_profile carol_scores)

lemma volume_id: "b_id (volume n) = ''v'' \<longleftrightarrow> n = 0"
  by (simp add: volume_def)

lemma dana_genres: "''Atlas'' \<notin> profile_genres vast dana"
proof
  assume "''Atlas'' \<in> profile_genres vast dana"
  then obtain b where b: "b \<in> set (read_books vast dana)" and g: "genre b = ''Atlas''"
    by (auto simp: profile_genres_def)
  from b have "b \<in> set (filter (\<lambda>b. b_id b \<in> set (reading_history dana)) (books vast))"
    unfolding read_books_def by (rule in_set_takeD)
  then obtain n where "b = volume n" and "b_id (volume n) = ''v''"
    by (auto simp: vast_def dana_def)
  then have "b = volume 0" by (simp add: volume_id)
  with g show False by (simp add: volume_def)
qed

lemma dana_candidates: "candidates vast dana = []"
proof -
  have "take 1000 (books vast) = map volume [0..<1000]"
    by (simp add: vast_def take_map)
  moreover have "\<not> (b_id (volume n) \<notin> set (reading_history dana)
                    \<and> 0 < spec_score (profile_genres vast dana) (profile_tags vast dana) (volume n))"
    if "n < 1000" for n
  proof (cases "n = 0")
    case True
    then show ?thesis by (simp add: volume_def dana_def)
  next
    case False
    with that have "genre (volume n) = ''Atlas''" and "tags (volume n) = []"
      by (simp_all add: volume_def)
    then show ?thesis using dana_genres by (simp add: spec_score_def)
  qed
  ultimately show ?thesis
    by (simp add: candidates_def filter_empty_conv)
qed

text \<open>
  The claim as stated fails in a catalogue of more than a thousand books: Dana has read a
  science-fiction book, book number 1000 of the catalogue is science fiction that she has not
  read, and nothing is recommended, because the endpoint reads the first thousand books only.
\<close>

theorem recommendations_beyond_thousand_counterexample:
  "find_one (\<lambda>u. u_id u = ''u4'') (users vast) = Some dana
   \<and> reading_history dana = [''v'']
   \<and> volume 0 \<in> set (books vast) \<and> b_id (volume 0) = ''v'' \<and> genre (volume 0) = ''Sci-Fi''
   \<and> volume 1000 \<in> set (books vast) \<and> b_id (volume 1000) \<notin> set (reading_history dana)
   \<and> genre (volume 1000) = ''Sci-Fi''
   \<and> get_book_recommendations abc_order vast ''u4'' 5 = Inr []"
proof -
  have u: "find_one (\<lambda>u. u_id u = ''u4'') (users vast) = Some dana"
    by (simp add: find_one_def vast_def dana_def librarian_def)
  have h: "reading_history dana \<noteq> []" "reading_history dana = [''v'']"
    by (simp_all add: dana_def)
  have b0: "volume 0 \<in> set (books vast) \<and> b_id (volume 0) = ''v'' \<and> genre (volume 0) = ''Sci-Fi''"
    by (simp add: vast_def) (simp add: volume_def)
  have b1: "volume 1000 \<in> set (books vast) \<and> b_id (volume 1000) \<notin> set (reading_history dana)
       \<and> genre (volume 1000) = ''Sci-Fi''"
    by (simp add: vast_def) (simp add: volume_def dana_def)
  have "get_book_recommendations abc_order vast ''u4'' 5 = Inr []"
    unfolding get_book_recommendations_history [OF u h(1)] dana_candidates
    by (simp add: slice_to_def)
  with u h(2) b0 b1 show ?thesis by blast
qed

lemma sorted_take_drop:
  assumes "sorted (map f xs)"
  shows "\<forall>x\<in>set (take n xs). \<forall>y\<in>set (drop n xs). f x \<le> f y"
proof -
  have "sorted (map f (take n xs) @ map f (drop n xs))"
    using assms by (simp flip: map_append)
  then show ?thesis by (auto simp: sorted_append)
qed

lemma get_book_recommendations_popular:
  assumes "find_one (\<lambda>u. u_id u = uid) (users s) = Some user" "reading_history user = []"
    "0 \<le> limit"
  shows "get_book_recommendations set_order s uid limit =
     Inr (map popular (take (nat limit) (sort_key (\<lambda>b. - created_at b) (books s))))"
  using assms
  by (simp add: get_book_recommendations_def Let_def to_list_def limit_cursor_def)

text \<open>
  Claim C8. For a user with an empty reading history and a limit that is not negative, the
  endpoint returns the \<open>limit\<close> most recently catalogued books, all of them when the catalogue
  holds fewer: the returned books are the first \<open>limit\<close> of the catalogue sorted by descending
  \<^verbatim>\<open>created_at\<close>, no book left out was catalogued after a returned one, and every entry has
  the score \<open>0.5\<close> and the reason \<^verbatim>\<open>Popular book\<close>.
\<close>

theorem recommendations_without_history:
  assumes "find_one (\<lambda>u. u_id u = uid) (users s) = Some user" "reading_history user = []"
    "0 \<le> limit"
  shows "\<exists>chosen.
       get_book_recommendations set_order s uid limit = Inr (map popular chosen)
     \<and> chosen = take (nat limit) (sort_key (\<lambda>b. - created_at b) (books s))
     \<and> length chosen = min (nat limit) (length (books s))
     \<and> mset chosen \<subseteq># mset (books s)
     \<and> (\<forall>b\<in>set chosen. \<forall>b'\<in>#mset (books s) - mset chosen. created_at b' \<le> created_at b)
     \<and> sorted_wrt (\<lambda>a b. created_at b \<le> created_at a) chosen
     \<and> (\<forall>r\<in>set (map popular chosen). similarity_score r = 0.5 \<and> reason r = ''Popular book'')
     \<and> map rec_book_id (map popular chosen) = map b_id chosen"
proof -
  let ?sorted = "sort_key (\<lambda>b. - created_at b) (books s)"
  define chosen where "chosen = take (nat limit) ?sorted"
  have run: "get_book_recommendations set_order s uid limit = Inr (map popular chosen)"
    unfolding chosen_def using assms by (rule get_book_recommendations_popular)
  have len: "length chosen = min (nat limit) (length (books s))"
    by (simp add: chosen_def min.commute)
  have split: "mset (books s) = mset chosen + mset (drop (nat limit) ?sorted)"
  proof -
    have "mset (books s) = mset ?sorted" by simp
    also have "\<dots> = mset (take (nat limit) ?sorted) + mset (drop (nat limit) ?sorted)"
      by (simp flip: mset_append)
    finally show ?thesis by (simp add: chosen_def)
  qed
  have sub: "mset chosen \<subseteq># mset (books s)"
    unfolding split by simp
  have rest: "mset (books s) - mset chosen = mset (drop (nat limit) ?sorted)"
    unfolding split by simp
  have srt: "sorted (map (\<lambda>b. - created_at b) ?sorted)"
    by (rule sorted_sort_key)
  have "\<forall>b\<in>set chosen. \<forall>b'\<in>#mset (drop (nat limit) ?sorted). created_at b' \<le> created_at b"
    unfolding chosen_def using sorted_take_drop [OF srt, of "nat limit"] by auto
  then have recent: "\<forall>b\<in>set chosen. \<forall>b'\<in>#mset (books s) - mset chosen. created_at b' \<le> created_at b"
    unfolding rest .
  have "sorted (map (\<lambda>b. - created_at b) chosen)"
    unfolding chosen_def using srt by (simp add: take_map [symmetric] sorted_wrt_take)
  then have desc: "sorted_wrt (\<lambda>a b. created_at b \<le> created_at a) chosen"
    by (simp add: sorted_map)
  have fixed: "\<forall>r\<in>set (map popular chosen). similarity_score r = 0.5 \<and> reason r = ''Popular book''"
    by (auto simp: popular_def)
  have ids: "map rec_book_id (map popular chosen) = map b_id chosen"
    by (simp add: popular_def)
  from run len sub recent desc fixed ids show ?thesis
    by (intro exI [of _ chosen]) (simp add: chosen_def)
qed

lemma alice_room: "find_one (\<lambda>u. u_id u = ''u1'') (users reading_room) = Some alice"
  by (simp add: find_one_def room_defs)

lemma alice_history: "reading_history alice = []"
  by (simp add: alice_def)

lemma room_created:
  "created_at dune = 10" "created_at emma = 30" "created_at foundation = 20"
  "created_at hobbit = 25" "created_at solaris = 15" "created_at ubik = 40"
  by (simp_all add: room_defs)

lemma room_sorted:
  "sort_key (\<lambda>b. - created_at b) (books reading_room) = [ubik, emma, hobbit, foundation, solaris, dune]"
  by (simp add: reading_room_def room_created)

theorem recommendations_without_history_witness:
  "find_one (\<lambda>u. u_id u = ''u1'') (users reading_room) = Some alice
   \<and> reading_history alice = [] \<and> (0::int) \<le> 3
   \<and> get_book_recommendations abc_order reading_room ''u1'' 3 =
       Inr [\<lparr>rec_book_id = ''b6'', rec_title = ''Ubik'', rec_author = ''Philip K. Dick'',
             similarity_score = 0.5, reason = ''Popular book''\<rparr>,
            \<lparr>rec_book_id = ''b2'', rec_title = ''Emma'', rec_author = ''Jane Austen'',
             similarity_score = 0.5, reason = ''Popular book''\<rparr>,
            \<lparr>rec_book_id = ''b4'', rec_title = ''The Hobbit'', rec_author = ''J. R. R. Tolkien'',
             similarity_score = 0.5, reason = ''Popular book''\<rparr>]
   \<and> get_book_recommendations abc_order reading_room ''u1'' 10 =
       Inr (map popular [ubik, emma, hobbit, foundation, solaris, dune])"
proof -
  have three: "(0::int) \<le> 3" and ten: "(0::int) \<le> 10" by simp_all
  have p: "popular ubik =
         \<lparr>rec_book_id = ''b6'', rec_title = ''Ubik'', rec_author = ''Philip K. Dick'',
           similarity_score = 0.5, reason = ''Popular book''\<rparr>"
       "popular emma =
         \<lparr>rec_book_id = ''b2'', rec_title = ''Emma'', rec_author = ''Jane Austen'',
           similarity_score = 0.5, reason = ''Popular book''\<rparr>"
       "popular hobbit =
         \<lparr>rec_book_id = ''b4'', rec_title = ''The Hobbit'', rec_author = ''J. R. R. Tolkien'',
           similarity_score = 0.5, reason = ''Popular book''\<rparr>"
    by (simp_all add: popular_def room_defs)
  from recommendations_without_history [OF alice_room alice_history three, of abc_order]
  have a: "get_book_recommendations abc_order reading_room ''u1'' 3 =
      Inr (map popular (take (nat 3) (sort_key (\<lambda>b. - created_at b) (books reading_room))))"
    by blast
  from recommendations_without_history [OF alice_room alice_history ten, of abc_order]
  have b: "get_book_recommendations abc_order reading_room ''u1'' 10 =
      Inr (map popular (take (nat 10) (sort_key (\<lambda>b. - created_at b) (books reading_room))))"
    by blast
  show ?thesis
    unfolding a b room_sorted using alice_room alice_history by (simp add: p)
qed

subsection \<open>Overdue predictions\<close>

lemma fold_predict_step:
  "fold (predict_step s utcnow) bs acc = acc @ concat (map (prediction_of s utcnow) bs)"
proof (induction bs arbitrary: acc)
  case Nil
  then show ?case by simp
next
  case (Cons b bs)
  have "predict_step s utcnow b acc = acc @ prediction_of s utcnow b"
    by (simp add: predict_step_def prediction_of_def Let_def split: option.splits)
  then show ?case by (simp add: Cons.IH)
qed

lemma get_overdue_predictions_eq:
  assumes "u_role cu = ''librarian''"
  shows "get_overdue_predictions s cu utcnow =
     Inr (sort_key (\<lambda>p. - probability p)
            (concat (map (prediction_of s utcnow)
               (take 1000 (filter (\<lambda>r. status r = Borrowed) (borrows s))))))"
  using assms by (simp add: get_overdue_predictions_def Let_def to_list_def fold_predict_step)

lemma user_overdue_count_zero: "user_overdue_count s uid = 0"
  by (simp add: user_overdue_count_def)

lemma overdue_rate_zero: "overdue_rate s uid = 0"
  by (simp add: overdue_rate_def user_overdue_count_zero)

lemma overdue_probability_code:
  "overdue_probability d (overdue_rate s uid) =
     (if d \<le> 0 then 0.95 else if d \<le> 2 then 0.7 else if d \<le> 5 then 0.4 else 0)"
  by (simp add: overdue_probability_def overdue_rate_zero)

text \<open>
  Claim C3. For a loan of status \<^verbatim>\<open>borrowed\<close> the specification takes as overdue rate the
  number of the user's loans that are overdue or were returned after their due date, divided
  by the number of the user's loans (at least 1), and reads the probability off the days
  until the due date: \<open>0.95\<close> up to 0 days, \<open>0.7 + 0.2\<cdot>rate\<close> up to 2,
  \<open>0.4 + 0.3\<cdot>rate\<close> up to 5, the rate beyond; the label is \<^verbatim>\<open>High\<close> from \<open>0.7\<close>,
  \<^verbatim>\<open>Medium\<close> from \<open>0.4\<close>, else \<^verbatim>\<open>Low\<close>. The endpoint has these bands and labels, but
  its count query (lines 591-595) compares \<^verbatim>\<open>returned_at\<close> with the string
  \<^verbatim>\<open>"$due_date"\<close>, which no date exceeds, so it counts nothing and its rate is always
  zero. Carol, who returned one of her two loans ten days late, has the rate \<open>0.5\<close> by the
  specification, which for a loan due in ten days is the probability \<open>0.5\<close> and the label
  \<^verbatim>\<open>Medium\<close>; the endpoint reports the probability \<open>0\<close> and the label \<^verbatim>\<open>Low\<close>.
\<close>

theorem overdue_rate_ignores_late_returns:
  "user_total_borrows risky ''u3'' = 2
   \<and> spec_overdue_count risky ''u3'' = 1
   \<and> spec_overdue_rate risky ''u3'' = 0.5
   \<and> overdue_probability (delta_days (T0 + 10 * DAY) T0) (spec_overdue_rate risky ''u3'') = 0.5
   \<and> risk_of 0.5 = ''Medium''
   \<and> user_overdue_count risky ''u3'' = 0
   \<and> overdue_rate risky ''u3'' = 0
   \<and> get_overdue_predictions risky librarian (\<lambda>borrow. T0) =
       Inr [\<lparr>p_borrow_id = ''l8'', p_user_id = ''u3'', p_book_title = ''Solaris'',
             probability = 0, risk_level = ''Low''\<rparr>]"
proof -
  have total: "user_total_borrows risky ''u3'' = 2"
    by (simp add: user_total_borrows_def risky_def)
  have late: "spec_overdue_count risky ''u3'' = 1"
    by (simp add: spec_overdue_count_def risky_def DAY_def)
  have rate: "spec_overdue_rate risky ''u3'' = 0.5"
    by (simp add: spec_overdue_rate_def total late)
  have days: "delta_days (T0 + 10 * DAY) T0 = 10"
    by (simp add: delta_days_def DAY_def)
  have prob: "overdue_probability (delta_days (T0 + 10 * DAY) T0) (spec_overdue_rate risky ''u3'') = 0.5"
    unfolding rate days by (simp add: overdue_probability_def)
  have risk: "risk_of 0.5 = ''Medium''"
    by (simp add: risk_of_def)
  have run: "get_overdue_predictions risky librarian (\<lambda>borrow. T0) =
       Inr [\<lparr>p_borrow_id = ''l8'', p_user_id = ''u3'', p_book_title = ''Solaris'',
             probability = 0, risk_level = ''Low''\<rparr>]"
    by (simp add: get_overdue_predictions_def predict_step_def to_list_def find_one_def
          overdue_rate_zero overdue_probability_def risk_of_def days Let_def
          risky_def librarian_def carol_def dune_def solaris_def)
  from total late rate prob risk user_overdue_count_zero overdue_rate_zero run
  show ?thesis by blast
qed

subsection \<open>The availability invariant\<close>

text \<open>
  Borrowing, returning, the sweep and the creation of a book keep the invariant, in a store
  whose books and loans have distinct identifiers.
\<close>

lemma borrow_book_books:
  assumes "borrow_book s cu req now stamp new_id = Inr (s', r)"
  shows "\<exists>book. find_one (\<lambda>b. b_id b = req_book_id req) (books s) = Some book
           \<and> 0 < available_copies book
           \<and> books s' = update_one (\<lambda>b. b_id b = req_book_id req)
                 (\<lambda>b. b\<lparr>available_copies := available_copies b - 1\<rparr>) (books s)"
  using assms
  by (auto simp: borrow_book_def Let_def split: option.splits if_splits sum.splits)

lemma return_book_books:
  assumes "return_book s cu bid now = Inr (s', fine)"
  shows "\<exists>x. find_one (\<lambda>r. r_id r = bid) (borrows s) = Some x
           \<and> books s' = update_one (\<lambda>b. b_id b = book_id x)
                 (\<lambda>b. b\<lparr>available_copies := available_copies b + 1\<rparr>) (books s)"
  using assms by (auto simp: return_book_def Let_def split: option.splits if_splits)

lemma ledger_invI:
  assumes "\<And>b. b \<in> set (books s) \<Longrightarrow>
     0 \<le> available_copies b \<and> available_copies b \<le> total_copies b
     \<and> available_copies b = total_copies b - int (active_loans s (b_id b))"
  shows "ledger_inv s"
  unfolding ledger_inv_def list_all_iff using assms by blast

lemma ledger_invD:
  assumes "ledger_inv s" "b \<in> set (books s)"
  shows "0 \<le> available_copies b" "available_copies b \<le> total_copies b"
    "available_copies b = total_copies b - int (active_loans s (b_id b))"
  using assms unfolding ledger_inv_def list_all_iff by blast+

lemma borrow_book_ledger:
  assumes inv: "ledger_inv s" and ids: "distinct (map b_id (books s))"
    and run: "borrow_book s cu req now stamp new_id = Inr (s', r)"
  shows "ledger_inv s'"
proof (rule ledger_invI)
  let ?bk = "req_book_id req"
  let ?dec = "\<lambda>b. b\<lparr>available_copies := available_copies b - 1\<rparr>"
  from borrow_book_books [OF run] obtain book
    where found: "find_one (\<lambda>b. b_id b = ?bk) (books s) = Some book"
      and avail: "0 < available_copies book"
      and bs: "books s' = update_one (\<lambda>b. b_id b = ?bk) ?dec (books s)"
    by blast
  from borrow_book_borrows [OF run]
  have ls: "borrows s' = borrows s @ [r]" and r: "status r = Borrowed" "book_id r = ?bk"
    by simp_all
  have bs': "books s' = map (\<lambda>b. if b_id b = ?bk then ?dec b else b) (books s)"
    unfolding bs using ids by (rule update_one_distinct)
  have act: "active_loans s' x = active_loans s x + (if x = ?bk then 1 else 0)" for x
    using r by (auto simp: active_loans_def ls active_def)
  fix b' assume "b' \<in> set (books s')"
  then obtain b where b: "b \<in> set (books s)"
    and b': "b' = (if b_id b = ?bk then ?dec b else b)"
    by (auto simp: bs')
  note old = ledger_invD [OF inv b]
  show "0 \<le> available_copies b' \<and> available_copies b' \<le> total_copies b'
     \<and> available_copies b' = total_copies b' - int (active_loans s' (b_id b'))"
  proof (cases "b_id b = ?bk")
    case True
    with find_one_distinct [OF ids b] found have "book = b" by simp
    with avail have "0 < available_copies b" by simp
    with True old show ?thesis by (simp add: b' act)
  next
    case False
    with old show ?thesis by (simp add: b' act)
  qed
qed

lemma length_filter_replace:
  assumes "distinct (map g xs)" "x \<in> set xs" "P x" "\<not> P (f x)"
  shows "length (filter P (map (\<lambda>y. if g y = g x then f y else y) xs)) + 1 = length (filter P xs)"
  using assms(1,2)
proof (induction xs)
  case Nil
  then show ?case by simp
next
  case (Cons y ys)
  show ?case
  proof (cases "y = x")
    case True
    with Cons.prems have "\<forall>z\<in>set ys. g z \<noteq> g x" by (auto simp: image_iff)
    then have "map (\<lambda>y. if g y = g x then f y else y) ys = ys"
      by (simp add: map_idI)
    with True assms(3,4) show ?thesis by simp
  next
    case False
    with Cons.prems have x: "x \<in> set ys" and ne: "g y \<noteq> g x" by (auto simp: image_iff)
    with Cons show ?thesis by simp
  qed
qed

lemma length_filter_keep:
  assumes "\<And>y. y \<in> set xs \<Longrightarrow> P (h y) = P y"
  shows "length (filter P (map h xs)) = length (filter P xs)"
  using assms by (induction xs) auto

lemma return_book_ledger:
  assumes inv: "ledger_inv s" and ids: "distinct (map b_id (books s))"
    and lids: "distinct (map r_id (borrows s))"
    and run: "return_book s cu bid now = Inr (s', fine)"
  shows "ledger_inv s'"
proof (rule ledger_invI)
  let ?ret = "\<lambda>r. r\<lparr>returned_at := Some now, status := Returned, fine_amount := fine\<rparr>"
  let ?inc = "\<lambda>b. b\<lparr>available_copies := available_copies b + 1\<rparr>"
  from return_book_borrows [OF run] return_book_books [OF run] obtain x
    where found: "find_one (\<lambda>r. r_id r = bid) (borrows s) = Some x"
      and st: "status x \<noteq> Returned"
      and ls: "borrows s' = update_one (\<lambda>r. r_id r = bid) ?ret (borrows s)"
      and bs: "books s' = update_one (\<lambda>b. b_id b = book_id x) ?inc (books s)"
    by auto
  have x: "x \<in> set (borrows s)" "r_id x = bid"
    using find_one_Some_iff [OF found] by simp_all
  have ax: "active x"
    using st by (cases "status x") (simp_all add: active_def)
  have ls': "borrows s' = map (\<lambda>r. if r_id r = r_id x then ?ret r else r) (borrows s)"
    unfolding ls x(2) [symmetric] using lids by (rule update_one_distinct)
  have bs': "books s' = map (\<lambda>b. if b_id b = book_id x then ?inc b else b) (books s)"
    unfolding bs using ids by (rule update_one_distinct)
  have same: "y = x" if "y \<in> set (borrows s)" "r_id y = r_id x" for y
  proof -
    have "inj_on r_id (set (borrows s))" using lids by (simp add: distinct_map)
    then show ?thesis using that x(1) by (auto dest: inj_onD)
  qed
  have act_same: "active_loans s' k = active_loans s k" if "k \<noteq> book_id x" for k
    unfolding active_loans_def ls' using that
    by (intro length_filter_keep) (auto simp: active_def dest: same)
  have act_less: "active_loans s' (book_id x) + 1 = active_loans s (book_id x)"
    unfolding active_loans_def ls'
    using lids x(1) ax by (intro length_filter_replace) (simp_all add: active_def)
  fix b' assume "b' \<in> set (books s')"
  then obtain b where b: "b \<in> set (books s)"
    and b': "b' = (if b_id b = book_id x then ?inc b else b)"
    by (auto simp: bs')
  note old = ledger_invD [OF inv b]
  show "0 \<le> available_copies b' \<and> available_copies b' \<le> total_copies b'
     \<and> available_copies b' = total_copies b' - int (active_loans s' (b_id b'))"
  proof (cases "b_id b = book_id x")
    case True
    with old act_less show ?thesis by (simp add: b')
  next
    case False
    with old act_same [of "b_id b"] show ?thesis by (simp add: b')
  qed
qed

lemma sweep_ledger:
  assumes inv: "ledger_inv s" and lids: "distinct (map r_id (borrows s))"
    and run: "get_overdue_books s cu now = Inr (s', out)"
  shows "ledger_inv s'"
proof (rule ledger_invI)
  have role: "u_role cu = ''librarian''"
    using run by (rule get_overdue_books_role)
  have s': "s' = s\<lparr>borrows := map (\<lambda>r. if r \<in> set (overdue_selection s now)
                     then r\<lparr>status := Overdue\<rparr> else r) (borrows s)\<rparr>"
    using run get_overdue_books_sel [OF role lids, of now] by auto
  have act: "active_loans s' k = active_loans s k" for k
  proof -
    have "length (filter (\<lambda>r. book_id r = k \<and> active r)
            (map (\<lambda>r. if r \<in> set (overdue_selection s now)
                     then r\<lparr>status := Overdue\<rparr> else r) (borrows s))) =
          length (filter (\<lambda>r. book_id r = k \<and> active r) (borrows s))"
      using selection_subset [of s now]
      by (intro length_filter_keep) (auto simp: active_def)
    then show ?thesis by (simp add: active_loans_def s')
  qed
  fix b assume "b \<in> set (books s')"
  then have "b \<in> set (books s)" by (simp add: s')
  from ledger_invD [OF inv this]
  show "0 \<le> available_copies b \<and> available_copies b \<le> total_copies b
     \<and> available_copies b = total_copies b - int (active_loans s' (b_id b))"
    by (simp add: act)
qed

lemma create_book_ledger:
  assumes inv: "ledger_inv s" and fresh: "new_id \<notin> book_id ` set (borrows s)"
    and nonneg: "0 \<le> c_total_copies d"
    and run: "create_book s cu d new_id now = Inr (s', b)"
  shows "ledger_inv s'"
proof -
  have "active_loans s new_id = 0"
    using fresh by (auto simp: active_loans_def filter_empty_conv)
  then show ?thesis
    using inv run nonneg
    by (auto simp: create_book_def Let_def ledger_inv_def active_loans_def split: if_splits)
qed

lemma list_all_update_one:
  "list_all Q xs \<Longrightarrow> (\<And>x. Q x \<Longrightarrow> Q (f x)) \<Longrightarrow> list_all Q (update_one P f xs)"
  by (induction xs) auto

lemma update_book_ledger:
  assumes inv: "ledger_inv s" and same: "upd_total_copies d = None"
    and run: "update_book s cu bid d = Inr (s', b)"
  shows "ledger_inv s'"
proof -
  have keep: "available_copies (set_fields d x) = available_copies x
      \<and> total_copies (set_fields d x) = total_copies x \<and> b_id (set_fields d x) = b_id x" for x
    using same by (simp add: set_fields_def)
  have "s' = s \<or> s' = s\<lparr>books := update_one (\<lambda>b. b_id b = bid) (set_fields d) (books s)\<rparr>"
    using run by (auto simp: update_book_def Let_def split: if_splits option.splits)
  then show ?thesis
  proof
    assume "s' = s"
    with inv show ?thesis by simp
  next
    assume s': "s' = s\<lparr>books := update_one (\<lambda>b. b_id b = bid) (set_fields d) (books s)\<rparr>"
    have "list_all (\<lambda>b. 0 \<le> available_copies b \<and> available_copies b \<le> total_copies b
                  \<and> available_copies b = total_copies b - int (active_loans s (b_id b)))
            (update_one (\<lambda>b. b_id b = bid) (set_fields d) (books s))"
      using inv unfolding ledger_inv_def by (rule list_all_update_one) (simp add: keep)
    then show ?thesis by (simp add: ledger_inv_def s' active_loans_def)
  qed
qed

text \<open>
  Claim C1. The specification asks that every book always has
  \<open>0 \<le> available_copies \<le> total_copies\<close> and as many copies available as it has in total
  less its active loans, and that borrow, return, sweep and book update keep this. The first
  three do (above); the book update does not: \<^verbatim>\<open>update_book\<close> writes the new
  \<^verbatim>\<open>total_copies\<close> and leaves \<^verbatim>\<open>available_copies\<close> as it is. In a library that holds
  two copies of a book, none of them lent, the invariant holds; after the librarian sets
  \<^verbatim>\<open>total_copies\<close> to 1 the book has two copies available of one in total, with no loan
  on it, and the invariant is broken.
\<close>

theorem update_book_breaks_ledger:
  "ledger_inv stocked
   \<and> update_book stocked librarian ''b1'' one_copy =
       Inr (stocked\<lparr>books := [dune\<lparr>total_copies := 1, available_copies := 2\<rparr>]\<rparr>,
            dune\<lparr>total_copies := 1, available_copies := 2\<rparr>)
   \<and> active_loans (stocked\<lparr>books := [dune\<lparr>total_copies := 1, available_copies := 2\<rparr>]\<rparr>) ''b1'' = 0
   \<and> \<not> ledger_inv (stocked\<lparr>books := [dune\<lparr>total_copies := 1, available_copies := 2\<rparr>]\<rparr>)"
  by (simp add: ledger_inv_def active_loans_def update_book_def update_data_empty_def
        set_fields_def find_one_def one_copy_def stocked_def dune_def librarian_def)

end
